theory Spec2Isabelle
  imports Complex_Main
begin

section \<open>Portfolio optimisation\<close>

text \<open>
  A shallow embedding of \<^verbatim>\<open>src/main/python/optimize_portfolio.py\<close>.
  The program computes with numpy arrays of 64-bit floats. The embedding reads a float as
  a real number: rounding error is not modelled, so a property proved here is a property
  of the exact arithmetic the code approximates. What a float operation does beyond
  returning a number is written out: a numpy or scipy call that raises is a value of
  \<open>py_error\<close>, a square root of a negative number is \<open>NaN\<close>, and an array divided by
  a zero sum (numpy warns and stores nan or inf) is \<open>NonFinite\<close>.
  A one-dimensional array is a list, a two-dimensional array the list of its rows.
\<close>

subsection \<open>numpy\<close>

datatype py_error = LinAlgError | ValueError | IndexError | ImportError

datatype pyfloat = Fin real | NaN

datatype np_array = Weights "real list" | NonFinite

type_synonym vec = "real list"
type_synonym matrix = "real list list"

definition dot :: "vec \<Rightarrow> vec \<Rightarrow> real" where
  "dot xs ys = sum_list (map2 (*) xs ys)"

text \<open>\<open>np.dot\<close> of two vectors raises ValueError unless the shapes agree.\<close>

definition np_dot_vv :: "vec \<Rightarrow> vec \<Rightarrow> py_error + real" where
  "np_dot_vv xs ys = (if length xs = length ys then Inr (dot xs ys) else Inl ValueError)"

text \<open>\<open>np.dot\<close> of a matrix and a vector: every row has the vector's length.\<close>

definition np_dot_mv :: "matrix \<Rightarrow> vec \<Rightarrow> py_error + vec" where
  "np_dot_mv M v =
     (if list_all (\<lambda>r. length r = length v) M \<and> (M \<noteq> [] \<or> v = [])
      then Inr (map (\<lambda>r. dot r v) M) else Inl ValueError)"

text \<open>\<open>np.dot(w, np.dot(M, w))\<close>, the quadratic form of the variance.\<close>

definition quad_form :: "matrix \<Rightarrow> vec \<Rightarrow> py_error + real" where
  "quad_form M w =
     (case np_dot_mv M w of Inl e \<Rightarrow> Inl e | Inr Mw \<Rightarrow> np_dot_vv w Mw)"

definition np_sqrt :: "real \<Rightarrow> pyfloat" where
  "np_sqrt x = (if x < 0 then NaN else Fin (sqrt x))"

text \<open>\<open>a / a.sum()\<close>: the empty array stays empty, a zero sum makes nan or inf entries.\<close>

definition divide_by_sum :: "vec \<Rightarrow> np_array" where
  "divide_by_sum w =
     (if sum_list w = 0 \<and> w \<noteq> [] then NonFinite
      else Weights (map (\<lambda>x. x / sum_list w) w))"

text \<open>\<open>np.ones(n) / n\<close>.\<close>

definition equal_weights :: "nat \<Rightarrow> vec" where
  "equal_weights n = replicate n (1 / real n)"

text \<open>
  Broadcasting of one-dimensional shapes: equal lengths, or one operand of length 1
  that is repeated. \<open>np.clip(a, lo, hi)\<close> is \<open>minimum(maximum(a, lo), hi)\<close> on the
  broadcast operands.
\<close>

definition broadcast_shape :: "nat \<Rightarrow> nat \<Rightarrow> nat option" where
  "broadcast_shape a b =
     (if a = b then Some a else if a = 1 then Some b else if b = 1 then Some a else None)"

definition broadcast_to :: "nat \<Rightarrow> vec \<Rightarrow> vec" where
  "broadcast_to l xs = (if length xs = l then xs else replicate l (hd xs))"

definition np_clip :: "vec \<Rightarrow> vec \<Rightarrow> vec \<Rightarrow> py_error + vec" where
  "np_clip a lo hi =
     (case broadcast_shape (length a) (length lo) of
        None \<Rightarrow> Inl ValueError
      | Some l1 \<Rightarrow>
          (case broadcast_shape l1 (length hi) of
             None \<Rightarrow> Inl ValueError
           | Some l \<Rightarrow>
               Inr (map2 (\<lambda>x (lo, hi). min (max x lo) hi)
                      (broadcast_to l a) (zip (broadcast_to l lo) (broadcast_to l hi)))))"

subsection \<open>\<open>np.linalg.inv\<close>\<close>

text \<open>
  The inverse is computed by Gauss-Jordan elimination on the rows of \<open>(A | I)\<close>:
  for each column the first remaining row with a non-zero entry is the pivot. A matrix
  that is not square, or has no pivot in some column (it is singular), raises
  LinAlgError, as numpy does.
\<close>

type_synonym aug_row = "vec \<times> vec"

definition is_square :: "matrix \<Rightarrow> bool" where
  "is_square A = list_all (\<lambda>r. length r = length A) A"

definition identity_matrix :: "nat \<Rightarrow> matrix" where
  "identity_matrix n = map (\<lambda>i. map (\<lambda>j. if i = j then 1 else 0) [0..<n]) [0..<n]"

definition scale_row :: "real \<Rightarrow> aug_row \<Rightarrow> aug_row" where
  "scale_row c r = (map (\<lambda>x. c * x) (fst r), map (\<lambda>x. c * x) (snd r))"

definition sub_row :: "real \<Rightarrow> aug_row \<Rightarrow> aug_row \<Rightarrow> aug_row" where
  "sub_row c p r =
     (map2 (\<lambda>x y. x - c * y) (fst r) (fst p), map2 (\<lambda>x y. x - c * y) (snd r) (snd p))"

fun find_pivot :: "nat \<Rightarrow> aug_row list \<Rightarrow> (aug_row \<times> aug_row list) option" where
  "find_pivot k [] = None"
| "find_pivot k (r # rs) =
     (if fst r ! k \<noteq> 0 then Some (r, rs)
      else (case find_pivot k rs of
              None \<Rightarrow> None
            | Some (p, rest) \<Rightarrow> Some (p, r # rest)))"

fun gauss_jordan :: "nat list \<Rightarrow> aug_row list \<Rightarrow> aug_row list \<Rightarrow> aug_row list option" where
  "gauss_jordan [] finished todo = Some finished"
| "gauss_jordan (k # ks) finished todo =
     (case find_pivot k todo of
        None \<Rightarrow> None
      | Some (p, rest) \<Rightarrow>
          (let p' = scale_row (1 / fst p ! k) p;
               elim = (\<lambda>r. sub_row (fst r ! k) p' r)
           in gauss_jordan ks (map elim finished @ [p']) (map elim rest)))"

definition linalg_inv :: "matrix \<Rightarrow> py_error + matrix" where
  "linalg_inv A =
     (if \<not> is_square A then Inl LinAlgError
      else (case gauss_jordan [0..<length A] [] (zip A (identity_matrix (length A))) of
              None \<Rightarrow> Inl LinAlgError
            | Some rows \<Rightarrow> Inr (map snd rows)))"

subsection \<open>The classical solver\<close>

text \<open>
  \<open>scipy.optimize.minimize\<close> is outside the repository: the solver takes it as a
  parameter, \<open>None\<close> when the import inside the \<open>try\<close> fails. It receives the objective,
  the initial guess and the bounds, and returns \<open>result.success\<close> and \<open>result.x\<close>, or
  raises.
\<close>

datatype optimize_result = OptimizeResult (result_success: bool) (result_x: vec)

type_synonym minimize_fn =
  "(vec \<Rightarrow> py_error + real) \<Rightarrow> np_array \<Rightarrow> (real \<times> real) list \<Rightarrow> py_error + optimize_result"

record constraints =
  min_weights :: "vec option"
  max_weights :: "vec option"

definition risk_free_rate :: real where
  "risk_free_rate = 2 / 100"

text \<open>The ratio with its guard \<open>if portfolio_risk > 0 else 0\<close>; nan is not above 0.\<close>

definition sharpe_of :: "real \<Rightarrow> pyfloat \<Rightarrow> real" where
  "sharpe_of portfolio_return portfolio_risk =
     (case portfolio_risk of
        Fin r \<Rightarrow> (if r > 0 then (portfolio_return - risk_free_rate) / r else 0)
      | NaN \<Rightarrow> 0)"

definition objective :: "vec \<Rightarrow> matrix \<Rightarrow> vec \<Rightarrow> py_error + real" where
  "objective returns covariance_matrix w =
     (case np_dot_vv w returns of
        Inl e \<Rightarrow> Inl e
      | Inr portfolio_return \<Rightarrow>
          (case quad_form covariance_matrix w of
             Inl e \<Rightarrow> Inl e
           | Inr portfolio_variance \<Rightarrow>
               Inr (- sharpe_of portfolio_return (np_sqrt portfolio_variance))))"

definition risk_aversion :: "real \<Rightarrow> real" where
  "risk_aversion risk_factor = (if risk_factor > 0 then 2 / risk_factor else 1)"

text \<open>The weights before normalisation, \<open>np.dot(inv_cov, returns) / risk_aversion\<close>.\<close>

definition pre_projection :: "matrix \<Rightarrow> vec \<Rightarrow> real \<Rightarrow> py_error + vec" where
  "pre_projection inv_cov returns risk_factor =
     (case np_dot_mv inv_cov returns of
        Inl e \<Rightarrow> Inl e
      | Inr v \<Rightarrow> Inr (map (\<lambda>x. x / risk_aversion risk_factor) v))"

text \<open>Normalise to sum 1, or equal weights when the sum is not positive.\<close>

definition normalize_or_equal :: "nat \<Rightarrow> vec \<Rightarrow> vec" where
  "normalize_or_equal n w =
     (if sum_list w > 0 then map (\<lambda>x. x / sum_list w) w else equal_weights n)"

text \<open>\<open>np.maximum(weights, 0)\<close> followed by \<open>weights / weights.sum()\<close>.\<close>

definition long_only :: "vec \<Rightarrow> np_array" where
  "long_only w = divide_by_sum (map (\<lambda>x. max x 0) w)"

definition unconstrained_weights :: "nat \<Rightarrow> vec \<Rightarrow> matrix \<Rightarrow> real \<Rightarrow> py_error + np_array" where
  "unconstrained_weights n returns covariance_matrix risk_factor =
     (case linalg_inv covariance_matrix of
        Inl e \<Rightarrow> Inl e
      | Inr inv_cov \<Rightarrow>
          (case pre_projection inv_cov returns risk_factor of
             Inl e \<Rightarrow> Inl e
           | Inr w \<Rightarrow> Inr (long_only (normalize_or_equal n w))))"

text \<open>\<open>constraints.get('min_weights', np.zeros(n))\<close> and its sibling.\<close>

definition get_min_weights :: "nat \<Rightarrow> constraints \<Rightarrow> vec" where
  "get_min_weights n c = (case min_weights c of None \<Rightarrow> replicate n 0 | Some m \<Rightarrow> m)"

definition get_max_weights :: "nat \<Rightarrow> constraints \<Rightarrow> vec" where
  "get_max_weights n c = (case max_weights c of None \<Rightarrow> replicate n 1 | Some m \<Rightarrow> m)"

text \<open>The bounds read \<open>min_weights[i]\<close> and \<open>max_weights[i]\<close> for every \<open>i < n\<close>.\<close>

definition bounds_of :: "nat \<Rightarrow> constraints \<Rightarrow> py_error + (real \<times> real) list" where
  "bounds_of n c =
     (if length (get_min_weights n c) < n \<or> length (get_max_weights n c) < n
      then Inl IndexError
      else Inr (zip (take n (get_min_weights n c)) (take n (get_max_weights n c))))"

text \<open>The initial guess: the midpoints of the bounds, divided by their sum.\<close>

definition initial_weights :: "(real \<times> real) list \<Rightarrow> np_array" where
  "initial_weights bounds = divide_by_sum (map (\<lambda>(lo, hi). (lo + hi) / 2) bounds)"

definition constrained_weights ::
  "minimize_fn \<Rightarrow> nat \<Rightarrow> vec \<Rightarrow> matrix \<Rightarrow> constraints \<Rightarrow> py_error + np_array" where
  "constrained_weights minimize n returns covariance_matrix c =
     (case bounds_of n c of
        Inl e \<Rightarrow> Inl e
      | Inr bounds \<Rightarrow>
          (case minimize (objective returns covariance_matrix) (initial_weights bounds) bounds of
             Inl e \<Rightarrow> Inl e
           | Inr result \<Rightarrow>
               if result_success result
               then (case np_clip (result_x result) (get_min_weights n c) (get_max_weights n c) of
                       Inl e \<Rightarrow> Inl e
                     | Inr w \<Rightarrow> Inr (divide_by_sum w))
               else Inr (initial_weights bounds)))"

text \<open>
  The body of the \<open>try\<close>, and the function: every exception is caught and answered with
  equal weights.
\<close>

definition mpt_try ::
  "minimize_fn option \<Rightarrow> nat \<Rightarrow> vec \<Rightarrow> matrix \<Rightarrow> real \<Rightarrow> constraints option
     \<Rightarrow> py_error + np_array" where
  "mpt_try scipy n returns covariance_matrix risk_factor cs =
     (case scipy of
        None \<Rightarrow> Inl ImportError
      | Some minimize \<Rightarrow>
          (case cs of
             None \<Rightarrow> unconstrained_weights n returns covariance_matrix risk_factor
           | Some c \<Rightarrow> constrained_weights minimize n returns covariance_matrix c))"

definition optimize_with_modern_portfolio_theory ::
  "minimize_fn option \<Rightarrow> nat \<Rightarrow> vec \<Rightarrow> matrix \<Rightarrow> real \<Rightarrow> constraints option \<Rightarrow> np_array" where
  "optimize_with_modern_portfolio_theory scipy n returns covariance_matrix risk_factor cs =
     (case mpt_try scipy n returns covariance_matrix risk_factor cs of
        Inl e \<Rightarrow> Weights (equal_weights n)
      | Inr w \<Rightarrow> w)"

subsection \<open>The quantum solvers\<close>

text \<open>
  qiskit is outside the repository. \<open>QUANTUM_AVAILABLE\<close> is set by the imports at module
  load: the parameter is \<open>None\<close> when they failed. A binary variable \<open>x_i_bit\<close> is named
  by the pair \<open>(i, b)\<close> of its asset and its bit, a variable \<open>x_i\<close> by \<open>i\<close>. The backend receives the linear and
  quadratic coefficients and returns \<open>result.variables_dict\<close>, or raises.
\<close>

type_synonym qaoa_var = "nat \<times> nat"

record qiskit =
  qaoa_solve :: "(qaoa_var \<times> real) list \<Rightarrow> ((qaoa_var \<times> qaoa_var) \<times> real) list
                   \<Rightarrow> py_error + (qaoa_var \<rightharpoonup> real)"
  vqe_solve :: "(nat \<times> real) list \<Rightarrow> ((nat \<times> nat) \<times> real) list
                   \<Rightarrow> py_error + (nat \<rightharpoonup> real)"

definition bits_per_asset :: nat where
  "bits_per_asset = 4"

definition max_weight_value :: nat where
  "max_weight_value = 2 ^ bits_per_asset - 1"

definition bit_value :: "nat \<Rightarrow> real" where
  "bit_value b = 2 ^ b / real max_weight_value"

text \<open>\<open>returns[i]\<close> and \<open>covariance_matrix[i, j]\<close> are read for all \<open>i, j < n\<close>.\<close>

definition indices_in_range :: "nat \<Rightarrow> vec \<Rightarrow> matrix \<Rightarrow> bool" where
  "indices_in_range n returns covariance_matrix =
     (n = 0 \<or> (n \<le> length returns \<and> n \<le> length covariance_matrix \<and>
                list_all (\<lambda>r. n \<le> length r) covariance_matrix))"

definition qaoa_linear :: "nat \<Rightarrow> vec \<Rightarrow> (qaoa_var \<times> real) list" where
  "qaoa_linear n returns =
     concat (map (\<lambda>i. map (\<lambda>b. ((i, b), - (returns ! i) * bit_value b))
                         [0..<bits_per_asset]) [0..<n])"

definition qaoa_quadratic :: "nat \<Rightarrow> matrix \<Rightarrow> real \<Rightarrow> ((qaoa_var \<times> qaoa_var) \<times> real) list" where
  "qaoa_quadratic n covariance_matrix risk_factor =
     (let risk_penalty = risk_factor * 2 in
      concat (map (\<lambda>i. concat (map (\<lambda>j. concat (map (\<lambda>bit_i. map (\<lambda>bit_j.
        (((i, bit_i), (j, bit_j)),
         risk_penalty * (covariance_matrix ! i ! j) * bit_value bit_i * bit_value bit_j))
        [0..<bits_per_asset]) [0..<bits_per_asset])) [0..<n])) [0..<n]))"

definition qaoa_decode :: "nat \<Rightarrow> (qaoa_var \<rightharpoonup> real) \<Rightarrow> vec" where
  "qaoa_decode n variables_dict =
     map (\<lambda>i. sum_list (map (\<lambda>b.
            (case variables_dict (i, b) of
               None \<Rightarrow> 0
             | Some v \<Rightarrow> if v > 1 / 2 then bit_value b else 0))
          [0..<bits_per_asset])) [0..<n]"

definition qaoa_try :: "qiskit \<Rightarrow> nat \<Rightarrow> vec \<Rightarrow> matrix \<Rightarrow> real \<Rightarrow> py_error + np_array" where
  "qaoa_try q n returns covariance_matrix risk_factor =
     (if \<not> indices_in_range n returns covariance_matrix then Inl IndexError
      else (case qaoa_solve q (qaoa_linear n returns)
                   (qaoa_quadratic n covariance_matrix risk_factor) of
              Inl e \<Rightarrow> Inl e
            | Inr variables_dict \<Rightarrow>
                Inr (Weights (normalize_or_equal n (qaoa_decode n variables_dict)))))"

definition optimize_with_qaoa ::
  "qiskit option \<Rightarrow> minimize_fn option \<Rightarrow> nat \<Rightarrow> vec \<Rightarrow> matrix \<Rightarrow> real \<Rightarrow> np_array" where
  "optimize_with_qaoa quantum scipy n returns covariance_matrix risk_factor =
     (case quantum of
        None \<Rightarrow>
          optimize_with_modern_portfolio_theory scipy n returns covariance_matrix risk_factor None
      | Some q \<Rightarrow>
          (case qaoa_try q n returns covariance_matrix risk_factor of
             Inl e \<Rightarrow>
               optimize_with_modern_portfolio_theory scipy n returns covariance_matrix
                 risk_factor None
           | Inr w \<Rightarrow> w))"

definition vqe_linear :: "nat \<Rightarrow> vec \<Rightarrow> (nat \<times> real) list" where
  "vqe_linear n returns = map (\<lambda>i. (i, - (returns ! i))) [0..<n]"

definition vqe_quadratic :: "nat \<Rightarrow> matrix \<Rightarrow> real \<Rightarrow> ((nat \<times> nat) \<times> real) list" where
  "vqe_quadratic n covariance_matrix risk_factor =
     (let risk_penalty = risk_factor * 2 in
      concat (map (\<lambda>i. map (\<lambda>j. ((i, j), risk_penalty * (covariance_matrix ! i ! j)))
                         [0..<n]) [0..<n]))"

definition vqe_decode :: "nat \<Rightarrow> (nat \<rightharpoonup> real) \<Rightarrow> vec" where
  "vqe_decode n variables_dict =
     (let selected = filter (\<lambda>i. case variables_dict i of None \<Rightarrow> False | Some v \<Rightarrow> v > 1 / 2)
                       [0..<n]
      in if selected \<noteq> []
         then map (\<lambda>i. if i \<in> set selected then 1 / real (length selected) else 0) [0..<n]
         else equal_weights n)"

definition vqe_try :: "qiskit \<Rightarrow> nat \<Rightarrow> vec \<Rightarrow> matrix \<Rightarrow> real \<Rightarrow> py_error + np_array" where
  "vqe_try q n returns covariance_matrix risk_factor =
     (if \<not> indices_in_range n returns covariance_matrix then Inl IndexError
      else (case vqe_solve q (vqe_linear n returns)
                   (vqe_quadratic n covariance_matrix risk_factor) of
              Inl e \<Rightarrow> Inl e
            | Inr variables_dict \<Rightarrow> Inr (Weights (vqe_decode n variables_dict))))"

definition optimize_with_vqe ::
  "qiskit option \<Rightarrow> minimize_fn option \<Rightarrow> nat \<Rightarrow> vec \<Rightarrow> matrix \<Rightarrow> real \<Rightarrow> np_array" where
  "optimize_with_vqe quantum scipy n returns covariance_matrix risk_factor =
     (case quantum of
        None \<Rightarrow>
          optimize_with_modern_portfolio_theory scipy n returns covariance_matrix risk_factor None
      | Some q \<Rightarrow>
          (case vqe_try q n returns covariance_matrix risk_factor of
             Inl e \<Rightarrow>
               optimize_with_modern_portfolio_theory scipy n returns covariance_matrix
                 risk_factor None
           | Inr w \<Rightarrow> w))"

subsection \<open>The risk factor: \<open>main\<close> and the backtest\<close>

text \<open>
  \<open>main\<close> reads \<open>targetRiskLevel\<close> (default 5), divides it by 10, builds the problem
  (an empty return vector raises ValueError) and calls the solver the method names.
\<close>

definition main_risk_factor :: "real \<Rightarrow> real" where
  "main_risk_factor target_risk = target_risk / 10"

definition build_portfolio_optimization_problem ::
  "vec \<Rightarrow> matrix \<Rightarrow> real \<Rightarrow> py_error + (nat \<times> vec \<times> matrix \<times> real)" where
  "build_portfolio_optimization_problem returns covariance_matrix risk_factor =
     (if length returns = 0 then Inl ValueError
      else Inr (length returns, returns, covariance_matrix, risk_factor))"

definition main_optimize ::
  "qiskit option \<Rightarrow> minimize_fn option \<Rightarrow> string \<Rightarrow> real \<Rightarrow> vec \<Rightarrow> matrix
     \<Rightarrow> constraints option \<Rightarrow> py_error + np_array" where
  "main_optimize quantum scipy method target_risk returns covariance_matrix cs =
     (case build_portfolio_optimization_problem returns covariance_matrix
             (main_risk_factor target_risk) of
        Inl e \<Rightarrow> Inl e
      | Inr (n, returns, covariance_matrix, risk_factor) \<Rightarrow>
          if method = ''QAOA''
          then Inr (optimize_with_qaoa quantum scipy n returns covariance_matrix risk_factor)
          else if method = ''VQE''
          then Inr (optimize_with_vqe quantum scipy n returns covariance_matrix risk_factor)
          else Inr (optimize_with_modern_portfolio_theory scipy n returns covariance_matrix
                      risk_factor cs))"

text \<open>
  The backtest optimises each training window with its own local \<open>risk_factor = 5.0\<close>;
  \<open>backtest_optimization(stocks, periods)\<close> is not given the request's risk level.
\<close>

definition backtest_risk_factor :: real where
  "backtest_risk_factor = 5"

definition backtest_optimal_weights ::
  "minimize_fn option \<Rightarrow> string list \<Rightarrow> vec \<Rightarrow> matrix \<Rightarrow> np_array" where
  "backtest_optimal_weights scipy symbols mean_returns_train cov_matrix_train =
     (let n_stocks = length symbols;
          risk_factor = backtest_risk_factor
      in optimize_with_modern_portfolio_theory scipy n_stocks mean_returns_train
           cov_matrix_train risk_factor None)"

subsection \<open>Portfolio metrics\<close>

text \<open>
  Python's \<open>round(x, ndigits)\<close> rounds to the nearest multiple of \<open>10\<^sup>-\<^sup>n\<close>, a tie to the
  even one; \<open>round\<close> of nan is nan.
\<close>

definition round_half_even :: "real \<Rightarrow> int" where
  "round_half_even y =
     (if y - of_int \<lfloor>y\<rfloor> < 1 / 2 then \<lfloor>y\<rfloor>
      else if y - of_int \<lfloor>y\<rfloor> > 1 / 2 then \<lfloor>y\<rfloor> + 1
      else if even \<lfloor>y\<rfloor> then \<lfloor>y\<rfloor> else \<lfloor>y\<rfloor> + 1)"

definition py_round :: "real \<Rightarrow> nat \<Rightarrow> real" where
  "py_round y ndigits = of_int (round_half_even (y * 10 ^ ndigits)) / 10 ^ ndigits"

definition percent :: "pyfloat \<Rightarrow> pyfloat" where
  "percent y = (case y of Fin r \<Rightarrow> Fin (py_round (r * 100) 2) | NaN \<Rightarrow> NaN)"

record portfolio_metrics =
  expectedReturn :: real
  expectedRisk :: pyfloat
  sharpeRatio :: real

definition calculate_portfolio_metrics ::
  "vec \<Rightarrow> matrix \<Rightarrow> vec \<Rightarrow> py_error + portfolio_metrics" where
  "calculate_portfolio_metrics returns covariance_matrix weights =
     (case np_dot_vv weights returns of
        Inl e \<Rightarrow> Inl e
      | Inr portfolio_return \<Rightarrow>
          (case quad_form covariance_matrix weights of
             Inl e \<Rightarrow> Inl e
           | Inr portfolio_variance \<Rightarrow>
               (let portfolio_risk = np_sqrt portfolio_variance;
                    sharpe_ratio = sharpe_of portfolio_return portfolio_risk
                in Inr \<lparr>expectedReturn = py_round (portfolio_return * 100) 2,
                        expectedRisk = percent portfolio_risk,
                        sharpeRatio = py_round sharpe_ratio 3\<rparr>)))"

subsection \<open>The efficient frontier\<close>






subsection \<open>Historical data\<close>

text \<open>
  yfinance and pandas are outside the repository: the download is a parameter, \<open>None\<close>
  when the import inside the \<open>try\<close> fails. A price table is the list of its rows, one
  close price per symbol; close prices are positive, so that \<open>pct_change\<close> divides by
  no zero. The mean of no observation and the covariance of fewer than two are nan.
\<close>

record stock =
  symbol :: string
  riskLevel :: real

type_synonym price_table = "real list list"

type_synonym statistics = "pyfloat list \<times> pyfloat list list"

definition table_empty :: "price_table \<Rightarrow> bool" where
  "table_empty data = (case data of [] \<Rightarrow> True | row # _ \<Rightarrow> row = [])"

text \<open>\<open>prices.pct_change().dropna()\<close>: the first row, which has no predecessor, goes.\<close>

definition pct_change :: "price_table \<Rightarrow> real list list" where
  "pct_change prices =
     map2 (\<lambda>previous current. map2 (\<lambda>p c. (c - p) / p) previous current)
       (butlast prices) (tl prices)"

definition column :: "real list list \<Rightarrow> nat \<Rightarrow> real list" where
  "column rows j = map (\<lambda>r. r ! j) rows"

definition series_mean :: "real list \<Rightarrow> pyfloat" where
  "series_mean xs = (if xs = [] then NaN else Fin (sum_list xs / real (length xs)))"

definition series_cov :: "real list \<Rightarrow> real list \<Rightarrow> pyfloat" where
  "series_cov xs ys =
     (if length xs < 2 then NaN
      else Fin (sum_list (map2 (\<lambda>x y. (x - sum_list xs / real (length xs)) *
                                        (y - sum_list ys / real (length ys))) xs ys)
                / real (length xs - 1)))"

definition times :: "pyfloat \<Rightarrow> real \<Rightarrow> pyfloat" where
  "times y c = (case y of Fin r \<Rightarrow> Fin (r * c) | NaN \<Rightarrow> NaN)"

definition std_squared :: "real list \<Rightarrow> pyfloat" where
  "std_squared xs = (case series_cov xs xs of Fin v \<Rightarrow> Fin ((sqrt v)\<^sup>2) | NaN \<Rightarrow> NaN)"

definition annualized_statistics :: "nat \<Rightarrow> price_table \<Rightarrow> statistics" where
  "annualized_statistics n_symbols prices =
     (let returns_data = pct_change prices in
      if n_symbols = 1
      then ([times (series_mean (column returns_data 0)) 252],
            [[times (std_squared (column returns_data 0)) 252]])
      else (map (\<lambda>j. times (series_mean (column returns_data j)) 252) [0..<n_symbols],
            map (\<lambda>i. map (\<lambda>j. times (series_cov (column returns_data i)
                                          (column returns_data j)) 252)
                          [0..<n_symbols]) [0..<n_symbols]))"

text \<open>
  The simulated data: returns and volatilities from the risk levels, correlations drawn
  by \<open>np.random.uniform(0.3, 0.7, (n, n))\<close> after seeding with the symbols' characters;
  \<open>uniform seed i j\<close> is entry \<open>(i, j)\<close> of that draw.
\<close>

definition symbol_seed :: "stock list \<Rightarrow> nat" where
  "symbol_seed stocks = sum_list (map of_char (concat (map symbol stocks))) mod 10000"

definition correlation :: "(nat \<Rightarrow> nat \<Rightarrow> real) \<Rightarrow> nat \<Rightarrow> nat \<Rightarrow> real" where
  "correlation u i j = ((if i = j then 1 else u i j) + (if j = i then 1 else u j i)) / 2"

definition fetch_simulated_data :: "(nat \<Rightarrow> nat \<Rightarrow> nat \<Rightarrow> real) \<Rightarrow> stock list \<Rightarrow> statistics" where
  "fetch_simulated_data uniform stocks =
     (let n_stocks = length stocks;
          seed = symbol_seed stocks;
          returns = map (\<lambda>s. 5 / 100 + (riskLevel s / 100) * (15 / 100)) stocks;
          volatility = map (\<lambda>s. riskLevel s / 100 * (3 / 10)) stocks
      in (map Fin returns,
          map (\<lambda>i. map (\<lambda>j. Fin (volatility ! i * volatility ! j *
                                     correlation (uniform seed) i j))
                        [0..<n_stocks]) [0..<n_stocks]))"

type_synonym yf_download = "string list \<Rightarrow> string \<Rightarrow> py_error + price_table"

definition fetch_real_historical_data ::
  "yf_download option \<Rightarrow> (nat \<Rightarrow> nat \<Rightarrow> nat \<Rightarrow> real) \<Rightarrow> stock list \<Rightarrow> string \<Rightarrow> bool
     \<Rightarrow> statistics" where
  "fetch_real_historical_data yf uniform stocks period use_real_data =
     (if \<not> use_real_data then fetch_simulated_data uniform stocks
      else (case yf of
              None \<Rightarrow> fetch_simulated_data uniform stocks
            | Some download \<Rightarrow>
                (let symbols = map symbol stocks in
                 case download symbols period of
                   Inl e \<Rightarrow> fetch_simulated_data uniform stocks
                 | Inr data \<Rightarrow>
                     if table_empty data then fetch_simulated_data uniform stocks
                     else annualized_statistics (length symbols) data)))"

definition fetch_historical_data ::
  "yf_download option \<Rightarrow> (nat \<Rightarrow> nat \<Rightarrow> nat \<Rightarrow> real) \<Rightarrow> stock list \<Rightarrow> bool \<Rightarrow> statistics" where
  "fetch_historical_data yf uniform stocks use_real_data =
     fetch_real_historical_data yf uniform stocks ''1y'' use_real_data"

subsection \<open>Valid inputs of the classical solver\<close>

text \<open>
  A feasible bound set: both arrays have an entry per asset,
  \<open>0 \<le> min\<^sub>i \<le> max\<^sub>i \<le> 1\<close> and \<open>sum(min) \<le> 1 \<le> sum(max)\<close>.
\<close>

definition feasible_bounds :: "nat \<Rightarrow> constraints \<Rightarrow> bool" where
  "feasible_bounds n c =
     (length (get_min_weights n c) = n \<and> length (get_max_weights n c) = n \<and>
      list_all2 (\<lambda>lo hi. 0 \<le> lo \<and> lo \<le> hi \<and> hi \<le> 1)
        (get_min_weights n c) (get_max_weights n c) \<and>
      sum_list (get_min_weights n c) \<le> 1 \<and> 1 \<le> sum_list (get_max_weights n c))"

text \<open>
  What the success path needs of the optimiser: the point it reports as a success does not
  clip to an array of sum zero. An optimiser that keeps \<open>sum(w) = 1\<close> inside the bounds,
  as the equality constraint and the bounds handed to it demand, satisfies this.
\<close>

definition success_normalizable ::
  "minimize_fn \<Rightarrow> nat \<Rightarrow> vec \<Rightarrow> matrix \<Rightarrow> constraints \<Rightarrow> bool" where
  "success_normalizable minimize n returns covariance_matrix c =
     (case bounds_of n c of
        Inl e \<Rightarrow> True
      | Inr bounds \<Rightarrow>
          (case minimize (objective returns covariance_matrix) (initial_weights bounds) bounds of
             Inl e \<Rightarrow> True
           | Inr result \<Rightarrow>
               (case np_clip (result_x result) (get_min_weights n c) (get_max_weights n c) of
                  Inl e \<Rightarrow> True
                | Inr w \<Rightarrow> \<not> result_success result \<or> 0 < sum_list w)))"

definition non_negative :: "vec \<Rightarrow> bool" where
  "non_negative w = list_all (\<lambda>x. 0 \<le> x) w"

text \<open>Two vectors are proportional when one is a multiple of the other.\<close>

definition proportional :: "vec \<Rightarrow> vec \<Rightarrow> bool" where
  "proportional u v = (\<exists>c. u = map (\<lambda>x. c * x) v)"

text \<open>A run of the optimiser that reports the given outcome, whatever it is asked.\<close>

definition fixed_minimize :: "bool \<Rightarrow> vec \<Rightarrow> minimize_fn" where
  "fixed_minimize ok point = (\<lambda>objective x0 bounds. Inr (OptimizeResult ok point))"

text \<open>
  A covariance matrix is positive semidefinite: no vector has a negative quadratic form.
\<close>

definition positive_semidefinite :: "matrix \<Rightarrow> bool" where
  "positive_semidefinite M =
     (\<forall>w. length w = length M \<longrightarrow> 0 \<le> dot w (map (\<lambda>r. dot r w) M))"

text \<open>
  An augmented row \<open>(a | b)\<close> stands for the equation \<open>a \<cdot> z = b \<cdot> r\<close> of the linear
  system the elimination solves; \<open>row_holds z r\<close> says that \<open>z\<close> satisfies it.
\<close>

definition row_holds :: "vec \<Rightarrow> vec \<Rightarrow> aug_row \<Rightarrow> bool" where
  "row_holds z r row = (dot (fst row) z = dot (snd row) r)"

definition row_shape :: "nat \<Rightarrow> aug_row \<Rightarrow> bool" where
  "row_shape n row = (length (fst row) = n \<and> length (snd row) = n)"

text \<open>
  The state of the elimination before column \<open>m\<close>: the finished rows are unit vectors on
  the columns before \<open>m\<close>, the remaining rows are zero there.
\<close>

definition reduced :: "nat \<Rightarrow> nat \<Rightarrow> aug_row list \<Rightarrow> aug_row list \<Rightarrow> bool" where
  "reduced n m finished todo =
     (length finished = m \<and> (\<forall>row\<in>set finished \<union> set todo. row_shape n row) \<and>
      (\<forall>i<m. \<forall>j<m. fst (finished ! i) ! j = (if i = j then 1 else 0)) \<and>
      (\<forall>row\<in>set todo. \<forall>j<m. fst row ! j = 0))"

text \<open>A matrix is singular when it sends a vector other than zero to zero.\<close>

definition zero_vector :: "nat \<Rightarrow> vec" where
  "zero_vector n = replicate n 0"

definition singular :: "matrix \<Rightarrow> bool" where
  "singular A =
     (\<exists>z. length z = length A \<and> z \<noteq> zero_vector (length A) \<and>
          map (\<lambda>row. dot row z) A = zero_vector (length A))"


definition no_data :: yf_download where
  "no_data = (\<lambda>symbols period. Inr [])"

definition half_correlations :: "nat \<Rightarrow> nat \<Rightarrow> nat \<Rightarrow> real" where
  "half_correlations = (\<lambda>seed i j. 1 / 2)"


section \<open>Properties\<close>

subsection \<open>Sums and signs of normalised arrays\<close>

lemma sum_list_divide: "sum_list (map (\<lambda>x. x / s) w) = sum_list w / (s::real)"
  by (induction w) (simp_all add: add_divide_distrib)

lemma non_negative_divide: "non_negative w \<Longrightarrow> 0 < s \<Longrightarrow> non_negative (map (\<lambda>x. x / s) w)"
  by (induction w) (simp_all add: non_negative_def)

lemma non_negative_set: "non_negative w \<longleftrightarrow> (\<forall>x\<in>set w. 0 \<le> x)"
  by (simp add: non_negative_def list_all_iff)

lemma sum_list_non_negative: "non_negative w \<Longrightarrow> 0 \<le> sum_list w"
  by (induction w) (simp_all add: non_negative_def)

lemma divide_by_sum_positive:
  assumes "0 < sum_list w" and "non_negative w"
  shows "\<exists>w'. divide_by_sum w = Weights w' \<and> non_negative w' \<and> sum_list w' = 1"
  using assms by (simp add: divide_by_sum_def sum_list_divide non_negative_divide)

lemma sum_list_clamp: "sum_list w \<le> sum_list (map (\<lambda>x. max x 0) (w::real list))"
  by (induction w) (simp_all add: add_mono)

lemma non_negative_clamp: "non_negative (map (\<lambda>x. max x 0) w)"
  by (induction w) (simp_all add: non_negative_def)

lemma long_only_sum_one:
  assumes "sum_list w = 1"
  shows "\<exists>w'. long_only w = Weights w' \<and> non_negative w' \<and> sum_list w' = 1"
proof -
  have "1 \<le> sum_list (map (\<lambda>x. max x 0) w)"
    using sum_list_clamp [of w] assms by simp
  then have "0 < sum_list (map (\<lambda>x. max x 0) w)" by simp
  then show ?thesis
    unfolding long_only_def by (rule divide_by_sum_positive) (rule non_negative_clamp)
qed

lemma sum_list_equal_weights: "1 \<le> n \<Longrightarrow> sum_list (equal_weights n) = 1"
  by (simp add: equal_weights_def sum_list_replicate)

lemma non_negative_equal_weights: "non_negative (equal_weights n)"
  by (simp add: equal_weights_def non_negative_def list_all_iff)

lemma sum_list_normalize_or_equal: "1 \<le> n \<Longrightarrow> sum_list (normalize_or_equal n w) = 1"
  by (simp add: normalize_or_equal_def sum_list_divide sum_list_equal_weights)

lemma unconstrained_sum_one:
  assumes "1 \<le> n" and "unconstrained_weights n returns cov rf = Inr r"
  shows "\<exists>w. r = Weights w \<and> non_negative w \<and> sum_list w = 1"
  using assms long_only_sum_one [OF sum_list_normalize_or_equal [OF assms(1)]]
  by (auto simp: unconstrained_weights_def split: sum.splits)

subsection \<open>The constrained path\<close>

lemma sum_list_midpoints:
  "length lo = length hi \<Longrightarrow>
   sum_list (map (\<lambda>(l, h). (l + h) / 2) (zip lo hi)) = (sum_list lo + sum_list hi) / (2::real)"
  by (induction lo hi rule: list_induct2) (simp_all add: add_divide_distrib)

lemma non_negative_midpoints:
  "list_all2 (\<lambda>l h. 0 \<le> l \<and> l \<le> h \<and> h \<le> (1::real)) lo hi \<Longrightarrow>
   non_negative (map (\<lambda>(l, h). (l + h) / 2) (zip lo hi))"
  by (induction lo hi rule: list_all2_induct) (simp_all add: non_negative_def)

lemma feasible_bounds_non_negative:
  assumes "feasible_bounds n c"
  shows "non_negative (get_min_weights n c)" and "non_negative (get_max_weights n c)"
proof -
  let ?lo = "get_min_weights n c" and ?hi = "get_max_weights n c"
  from assms have all: "list_all2 (\<lambda>l h. 0 \<le> l \<and> l \<le> h \<and> h \<le> 1) ?lo ?hi"
    by (simp add: feasible_bounds_def)
  show "non_negative ?lo"
    using all by (auto simp: non_negative_def list_all2_conv_all_nth list_all_length)
  show "non_negative ?hi"
    using all by (auto simp: non_negative_def list_all2_conv_all_nth list_all_length
        intro: order_trans)
qed

lemma initial_weights_feasible:
  assumes "feasible_bounds n c" and "bounds_of n c = Inr bounds"
  shows "\<exists>w. initial_weights bounds = Weights w \<and> non_negative w \<and> sum_list w = 1"
proof -
  let ?lo = "get_min_weights n c" and ?hi = "get_max_weights n c"
  from assms have len: "length ?lo = n" "length ?hi = n"
    and all: "list_all2 (\<lambda>l h. 0 \<le> l \<and> l \<le> h \<and> h \<le> 1) ?lo ?hi"
    and hi: "1 \<le> sum_list ?hi"
    by (simp_all add: feasible_bounds_def)
  from assms(2) len have b: "bounds = zip ?lo ?hi"
    by (simp add: bounds_of_def)
  have "0 \<le> sum_list ?lo"
    using feasible_bounds_non_negative(1) [OF assms(1)] by (rule sum_list_non_negative)
  with hi have "0 < (sum_list ?lo + sum_list ?hi) / 2" by simp
  then have "0 < sum_list (map (\<lambda>(l, h). (l + h) / 2) bounds)"
    using len by (simp add: b sum_list_midpoints)
  moreover have "non_negative (map (\<lambda>(l, h). (l + h) / 2) bounds)"
    unfolding b using all by (rule non_negative_midpoints)
  ultimately show ?thesis
    unfolding initial_weights_def by (rule divide_by_sum_positive)
qed

lemma non_negative_broadcast_to:
  "non_negative xs \<Longrightarrow> xs \<noteq> [] \<Longrightarrow> non_negative (broadcast_to l xs)"
  by (cases xs) (auto simp: broadcast_to_def non_negative_def list_all_iff)

lemma non_negative_clip_rows:
  "non_negative lo \<Longrightarrow> non_negative hi \<Longrightarrow>
   non_negative (map2 (\<lambda>x (lo, hi). min (max x lo) hi) a (zip lo hi))"
proof (induction a arbitrary: lo hi)
  case Nil
  then show ?case by (simp add: non_negative_def)
next
  case (Cons x a)
  then show ?case
    by (cases lo; cases hi) (auto simp: non_negative_def)
qed

lemma np_clip_non_negative:
  assumes "np_clip a lo hi = Inr w" and "non_negative lo" and "non_negative hi"
    and "lo \<noteq> []" and "hi \<noteq> []"
  shows "non_negative w"
  using assms
  by (auto simp: np_clip_def split: option.splits
      intro!: non_negative_clip_rows non_negative_broadcast_to)

lemma constrained_sum_one:
  assumes n: "1 \<le> n" and feas: "feasible_bounds n c"
    and opt: "success_normalizable minimize n returns cov c"
    and r: "constrained_weights minimize n returns cov c = Inr r"
  shows "\<exists>w. r = Weights w \<and> non_negative w \<and> sum_list w = 1"
proof -
  from r obtain bounds where b: "bounds_of n c = Inr bounds"
    by (auto simp: constrained_weights_def split: sum.splits)
  from r b obtain result
    where m: "minimize (objective returns cov) (initial_weights bounds) bounds = Inr result"
    by (auto simp: constrained_weights_def split: sum.splits)
  show ?thesis
  proof (cases "result_success result")
    case False
    with r b m have "r = initial_weights bounds"
      by (simp add: constrained_weights_def)
    with initial_weights_feasible [OF feas b] show ?thesis by simp
  next
    case True
    with r b m obtain w
      where w: "np_clip (result_x result) (get_min_weights n c) (get_max_weights n c) = Inr w"
        and rw: "r = divide_by_sum w"
      by (auto simp: constrained_weights_def split: sum.splits)
    from feas n have ne: "get_min_weights n c \<noteq> []" "get_max_weights n c \<noteq> []"
      by (auto simp: feasible_bounds_def)
    have nn: "non_negative w"
      using w feasible_bounds_non_negative [OF feas] ne by (rule np_clip_non_negative)
    from opt b m w True have "0 < sum_list w"
      by (simp add: success_normalizable_def)
    from divide_by_sum_positive [OF this nn] rw show ?thesis by simp
  qed
qed

lemma mpt_sum_one:
  assumes n: "1 \<le> n"
    and feas: "\<And>c. cs = Some c \<Longrightarrow> feasible_bounds n c"
    and opt: "\<And>minimize c. scipy = Some minimize \<Longrightarrow> cs = Some c \<Longrightarrow>
                success_normalizable minimize n returns cov c"
  shows "\<exists>w. optimize_with_modern_portfolio_theory scipy n returns cov rf cs = Weights w \<and>
             non_negative w \<and> sum_list w = 1"
proof (cases "mpt_try scipy n returns cov rf cs")
  case (Inl e)
  then show ?thesis
    using n by (simp add: optimize_with_modern_portfolio_theory_def
        sum_list_equal_weights non_negative_equal_weights)
next
  case (Inr r)
  then obtain minimize where s: "scipy = Some minimize"
    by (auto simp: mpt_try_def split: option.splits)
  have "\<exists>w. r = Weights w \<and> non_negative w \<and> sum_list w = 1"
  proof (cases cs)
    case None
    with Inr s have "unconstrained_weights n returns cov rf = Inr r"
      by (simp add: mpt_try_def)
    with n show ?thesis by (rule unconstrained_sum_one)
  next
    case (Some c)
    with Inr s have "constrained_weights minimize n returns cov c = Inr r"
      by (simp add: mpt_try_def)
    with n feas [OF Some] opt [OF s Some] show ?thesis by (rule constrained_sum_one)
  qed
  with Inr show ?thesis
    by (simp add: optimize_with_modern_portfolio_theory_def)
qed

lemmas solver_defs =
  optimize_with_modern_portfolio_theory_def mpt_try_def unconstrained_weights_def
  constrained_weights_def bounds_of_def get_min_weights_def get_max_weights_def
  initial_weights_def divide_by_sum_def long_only_def normalize_or_equal_def
  pre_projection_def risk_aversion_def equal_weights_def np_clip_def broadcast_shape_def
  broadcast_to_def np_dot_mv_def dot_def fixed_minimize_def

lemmas inverse_defs =
  linalg_inv_def is_square_def identity_matrix_def scale_row_def sub_row_def upt_rec

text \<open>
  C1. For a valid input (at least one asset; when constraints are given, a feasible bound
  set) the weights returned by the classical solver are non-negative and sum to 1 within
  \<open>10\<^sup>-\<^sup>6\<close>, on every path: the analytic one, the optimiser's success, its
  non-convergence, and the fallback after an exception. On the success path the point the
  optimiser reports must not clip to an array of sum zero.
\<close>

theorem mpt_weights_non_negative_sum_one:
  assumes "1 \<le> n"
    and "\<And>c. cs = Some c \<Longrightarrow> feasible_bounds n c"
    and "\<And>minimize c. scipy = Some minimize \<Longrightarrow> cs = Some c \<Longrightarrow>
           success_normalizable minimize n returns covariance_matrix c"
  shows "\<exists>w. optimize_with_modern_portfolio_theory scipy n returns covariance_matrix
               risk_factor cs = Weights w \<and>
             (\<forall>x\<in>set w. 0 \<le> x) \<and> \<bar>sum_list w - 1\<bar> \<le> 1 / 10 ^ 6"
proof -
  from mpt_sum_one [OF assms, where rf = risk_factor] obtain w
    where "optimize_with_modern_portfolio_theory scipy n returns covariance_matrix
             risk_factor cs = Weights w"
      and "non_negative w" and "sum_list w = 1"
    by blast
  then show ?thesis by (auto simp: non_negative_set)
qed

theorem mpt_weights_non_negative_sum_one_witness:
  "(1::nat) \<le> 2 \<and>
   feasible_bounds 2 \<lparr>min_weights = Some [1 / 2, 0], max_weights = Some [1, 1]\<rparr> \<and>
   success_normalizable (fixed_minimize True [6 / 10, 4 / 10]) 2 [1 / 10, 2 / 10]
     [[1, 0], [0, 1]] \<lparr>min_weights = Some [1 / 2, 0], max_weights = Some [1, 1]\<rparr> \<and>
   (\<exists>w. optimize_with_modern_portfolio_theory (Some (fixed_minimize True [6 / 10, 4 / 10])) 2
          [1 / 10, 2 / 10] [[1, 0], [0, 1]] (1 / 2)
          (Some \<lparr>min_weights = Some [1 / 2, 0], max_weights = Some [1, 1]\<rparr>) = Weights w \<and>
        (\<forall>x\<in>set w. 0 \<le> x) \<and> \<bar>sum_list w - 1\<bar> \<le> 1 / 10 ^ 6)"
proof -
  let ?c = "\<lparr>min_weights = Some [1 / 2, 0], max_weights = Some [1, 1]\<rparr>"
  let ?m = "fixed_minimize True [6 / 10, 4 / 10]"
  have n: "(1::nat) \<le> 2" by simp
  have f: "feasible_bounds 2 ?c"
    by (simp add: feasible_bounds_def get_min_weights_def get_max_weights_def)
  have o: "success_normalizable ?m 2 [1 / 10, 2 / 10] [[1, 0], [0, 1]] ?c"
    by (simp add: success_normalizable_def solver_defs)
  have f': "\<And>c. Some ?c = Some c \<Longrightarrow> feasible_bounds 2 c"
    using f by simp
  have o': "\<And>minimize c. Some ?m = Some minimize \<Longrightarrow> Some ?c = Some c \<Longrightarrow>
              success_normalizable minimize 2 [1 / 10, 2 / 10] [[1, 0], [0, 1]] c"
    using o by simp
  from mpt_weights_non_negative_sum_one [OF n f' o', where risk_factor = "1 / 2"] n f o
  show ?thesis by blast
qed

subsection \<open>The inverse\<close>

lemma find_pivot_Some:
  assumes "find_pivot k rows = Some (p, rest)"
  shows "fst p ! k \<noteq> 0" and "set rows = insert p (set rest)"
    and "length rows = Suc (length rest)"
  using assms
  by (induction rows arbitrary: rest) (auto split: if_splits option.splits)

lemma find_pivot_None: "find_pivot k rows = None \<Longrightarrow> \<forall>row\<in>set rows. fst row ! k = 0"
  by (induction rows) (auto split: if_splits option.splits)

lemma dot_scale: "dot (map (\<lambda>x. c * x) a) z = c * dot a z"
proof (induction a arbitrary: z)
  case Nil
  then show ?case by (simp add: dot_def)
next
  case (Cons x a)
  then show ?case by (cases z) (simp_all add: dot_def algebra_simps)
qed

lemma dot_sub:
  "length a = length a' \<Longrightarrow>
   dot (map2 (\<lambda>x y. x - c * y) a a') z = dot a z - c * dot a' z"
proof (induction a a' arbitrary: z rule: list_induct2)
  case Nil
  then show ?case by (simp add: dot_def)
next
  case (Cons x a y a')
  then show ?case by (cases z) (simp_all add: dot_def algebra_simps)
qed

lemma row_holds_scale: "c \<noteq> 0 \<Longrightarrow> row_holds z r (scale_row c row) = row_holds z r row"
  by (simp add: row_holds_def scale_row_def dot_scale)

lemma row_holds_sub:
  assumes "row_shape n p" and "row_shape n row" and "row_holds z r p"
  shows "row_holds z r (sub_row c p row) = row_holds z r row"
  using assms by (simp add: row_holds_def row_shape_def sub_row_def dot_sub)

lemma row_shape_scale: "row_shape n row \<Longrightarrow> row_shape n (scale_row c row)"
  by (simp add: row_shape_def scale_row_def)

lemma row_shape_sub: "row_shape n p \<Longrightarrow> row_shape n row \<Longrightarrow> row_shape n (sub_row c p row)"
  by (simp add: row_shape_def sub_row_def)

lemma dot_zero_vector: "dot b (zero_vector n) = 0"
proof (induction b arbitrary: n)
  case Nil
  then show ?case by (simp add: dot_def)
next
  case (Cons x b)
  then show ?case by (cases n) (simp_all add: dot_def zero_vector_def)
qed

lemma dot_sum:
  assumes "length a = length z"
  shows "dot a z = (\<Sum>j = 0..<length a. a ! j * z ! j)"
  using assms by (simp add: dot_def sum_list_sum_nth)

lemma dot_unit:
  assumes "i < n" and "length z = n"
  shows "dot (map (\<lambda>j. if i = j then 1 else 0) [0..<n]) z = z ! i"
proof -
  have "dot (map (\<lambda>j. if i = j then 1 else 0) [0..<n]) z
          = (\<Sum>j = 0..<n. (if i = j then 1 else 0) * z ! j)"
    using assms(2) by (simp add: dot_def sum_list_sum_nth)
  also have "\<dots> = (\<Sum>j = 0..<n. if i = j then z ! j else 0)"
    by (rule sum.cong) simp_all
  also have "\<dots> = z ! i" using assms(1) by simp
  finally show ?thesis .
qed

lemma nth_sub_row:
  assumes "row_shape n p" and "row_shape n row" and "j < n"
  shows "fst (sub_row c p row) ! j = fst row ! j - c * fst p ! j"
  using assms by (simp add: sub_row_def row_shape_def)

lemma nth_scale_row:
  assumes "row_shape n row" and "j < n"
  shows "fst (scale_row c row) ! j = c * fst row ! j"
  using assms by (simp add: scale_row_def row_shape_def)

text \<open>One step of the elimination keeps the solutions of the system and its reduced form.\<close>

lemma step_holds:
  assumes fp: "find_pivot k todo = Some (p, rest)"
    and shapes: "\<forall>row\<in>set finished \<union> set todo. row_shape n row"
  defines "p' \<equiv> scale_row (1 / fst p ! k) p"
  defines "elim \<equiv> \<lambda>row. sub_row (fst row ! k) p' row"
  shows "(\<forall>row\<in>set (map elim finished @ [p']) \<union> set (map elim rest). row_holds z r row)
           \<longleftrightarrow> (\<forall>row\<in>set finished \<union> set todo. row_holds z r row)"
proof -
  note piv = find_pivot_Some [OF fp]
  from piv(2) shapes have shp: "row_shape n p" and shr: "\<forall>row\<in>set rest. row_shape n row"
    and shf: "\<forall>row\<in>set finished. row_shape n row"
    by auto
  have shp': "row_shape n p'" unfolding p'_def using shp by (rule row_shape_scale)
  have pp': "row_holds z r p' = row_holds z r p"
    unfolding p'_def using piv(1) by (simp add: row_holds_scale)
  have el: "row_holds z r (elim row) = row_holds z r row"
    if "row_holds z r p'" and "row \<in> set finished \<union> set rest" for row
  proof -
    from that(2) shr shf have "row_shape n row" by auto
    from row_holds_sub [OF shp' this that(1)] show ?thesis by (simp add: elim_def)
  qed
  show ?thesis
  proof
    assume new: "\<forall>row\<in>set (map elim finished @ [p']) \<union> set (map elim rest). row_holds z r row"
    then have hp': "row_holds z r p'" by simp
    have "row_holds z r row" if "row \<in> set finished \<union> set rest" for row
    proof -
      from that new have "row_holds z r (elim row)" by auto
      with el [OF hp' that] show ?thesis by simp
    qed
    with hp' pp' piv(2) show "\<forall>row\<in>set finished \<union> set todo. row_holds z r row" by auto
  next
    assume old: "\<forall>row\<in>set finished \<union> set todo. row_holds z r row"
    with piv(2) pp' have hp': "row_holds z r p'" by simp
    have "row_holds z r (elim row)" if "row \<in> set finished \<union> set rest" for row
    proof -
      from that old piv(2) have "row_holds z r row" by auto
      with el [OF hp' that] show ?thesis by simp
    qed
    with hp' show "\<forall>row\<in>set (map elim finished @ [p']) \<union> set (map elim rest). row_holds z r row"
      by auto
  qed
qed

lemma reduced_step:
  assumes red: "reduced n k finished todo" and kn: "k < n"
    and fp: "find_pivot k todo = Some (p, rest)"
  defines "p' \<equiv> scale_row (1 / fst p ! k) p"
  defines "elim \<equiv> \<lambda>row. sub_row (fst row ! k) p' row"
  shows "reduced n (Suc k) (map elim finished @ [p']) (map elim rest)"
proof -
  define fin where "fin = map elim finished @ [p']"
  from red have lenf: "length finished = k"
    and shapes0: "\<forall>row\<in>set finished \<union> set todo. row_shape n row"
    and unit: "\<forall>i<k. \<forall>j<k. fst (finished ! i) ! j = (if i = j then 1 else 0)"
    and zero: "\<forall>row\<in>set todo. \<forall>j<k. fst row ! j = 0"
    by (simp_all add: reduced_def)
  note piv = find_pivot_Some [OF fp]
  from piv(2) shapes0 have shp: "row_shape n p" and shr: "\<forall>row\<in>set rest. row_shape n row"
    and shf: "\<forall>row\<in>set finished. row_shape n row"
    by auto
  have shp': "row_shape n p'" unfolding p'_def using shp by (rule row_shape_scale)
  have shapes: "\<forall>row\<in>set fin \<union> set (map elim rest). row_shape n row"
    using shp' shr shf by (auto simp: fin_def elim_def row_shape_sub)
  have p'k: "fst p' ! k = 1"
    using piv(1) kn by (simp add: p'_def nth_scale_row [OF shp])
  have p'j: "fst p' ! j = 0" if "j < k" for j
  proof -
    from piv(2) have "p \<in> set todo" by simp
    with zero that have "fst p ! j = 0" by blast
    with that kn show ?thesis by (simp add: p'_def nth_scale_row [OF shp])
  qed
  have elim_k: "fst (elim row) ! k = 0" if "row_shape n row" for row
    using that kn p'k by (simp add: elim_def nth_sub_row [OF shp'])
  have elim_j: "fst (elim row) ! j = fst row ! j" if "row_shape n row" and "j < k" for row j
    using that kn p'j by (simp add: elim_def nth_sub_row [OF shp'])
  have len: "length fin = Suc k" using lenf by (simp add: fin_def)
  have units: "\<forall>i<Suc k. \<forall>j<Suc k. fst (fin ! i) ! j = (if i = j then 1 else 0)"
  proof (intro allI impI)
    fix i j assume i: "i < Suc k" and j: "j < Suc k"
    show "fst (fin ! i) ! j = (if i = j then 1 else 0)"
    proof (cases "i < k")
      case True
      with lenf have fi: "fin ! i = elim (finished ! i)"
        by (simp add: fin_def nth_append)
      from True lenf shf have sh: "row_shape n (finished ! i)" by simp
      show ?thesis
      proof (cases "j < k")
        case jk: True
        with True unit show ?thesis by (simp add: fi elim_j [OF sh])
      next
        case False
        with j have "j = k" by simp
        with True show ?thesis using elim_k [OF sh] by (simp add: fi)
      qed
    next
      case False
      with i have ik: "i = k" by simp
      from lenf have fi: "fin ! k = p'" by (simp add: fin_def nth_append)
      show ?thesis
      proof (cases "j < k")
        case True
        with ik show ?thesis by (simp add: fi p'j)
      next
        case False
        with j have "j = k" by simp
        with ik p'k show ?thesis by (simp add: fi)
      qed
    qed
  qed
  have zeros: "\<forall>row\<in>set (map elim rest). \<forall>j<Suc k. fst row ! j = 0"
  proof (intro ballI allI impI)
    fix row j assume "row \<in> set (map elim rest)" and j: "j < Suc k"
    then obtain row0 where r0: "row0 \<in> set rest" and row: "row = elim row0" by auto
    from r0 shr have sh: "row_shape n row0" by simp
    from r0 piv(2) have td: "row0 \<in> set todo" by simp
    show "fst row ! j = 0"
    proof (cases "j < k")
      case True
      with td zero show ?thesis by (simp add: row elim_j [OF sh])
    next
      case False
      with j have "j = k" by simp
      then show ?thesis using elim_k [OF sh] by (simp add: row)
    qed
  qed
  from len shapes units zeros show ?thesis
    unfolding reduced_def fin_def by blast
qed

lemma gauss_jordan_preserves:
  assumes "gauss_jordan ks finished todo = Some res"
    and "\<forall>row\<in>set finished \<union> set todo. row_shape n row"
    and "\<forall>row\<in>set finished \<union> set todo. row_holds z r row"
  shows "\<forall>row\<in>set res. row_holds z r row"
  using assms
proof (induction ks arbitrary: finished todo)
  case Nil
  then show ?case by simp
next
  case (Cons k ks)
  from Cons.prems(1) obtain p rest where fp: "find_pivot k todo = Some (p, rest)"
    by (auto split: option.splits)
  define p' where "p' = scale_row (1 / fst p ! k) p"
  define elim where "elim = (\<lambda>row. sub_row (fst row ! k) p' row)"
  from Cons.prems(1) fp
  have res: "gauss_jordan ks (map elim finished @ [p']) (map elim rest) = Some res"
    by (simp add: Let_def elim_def p'_def)
  note piv = find_pivot_Some [OF fp]
  from piv(2) Cons.prems(2) have shp: "row_shape n p" and shr: "\<forall>row\<in>set rest. row_shape n row"
    and shf: "\<forall>row\<in>set finished. row_shape n row"
    by auto
  have shp': "row_shape n p'" unfolding p'_def using shp by (rule row_shape_scale)
  have shapes: "\<forall>row\<in>set (map elim finished @ [p']) \<union> set (map elim rest). row_shape n row"
    using shp' shr shf by (auto simp: elim_def row_shape_sub)
  have "\<forall>row\<in>set (map elim finished @ [p']) \<union> set (map elim rest). row_holds z r row"
    using step_holds [OF fp Cons.prems(2), where z = z and r = r] Cons.prems(3)
    by (simp add: elim_def p'_def)
  from Cons.IH [OF res shapes this] show ?case .
qed

lemma gauss_jordan_reflects:
  assumes "gauss_jordan ks finished todo = Some res"
    and "length todo = length ks"
    and "\<forall>row\<in>set finished \<union> set todo. row_shape n row"
    and "\<forall>row\<in>set res. row_holds z r row"
  shows "\<forall>row\<in>set finished \<union> set todo. row_holds z r row"
  using assms
proof (induction ks arbitrary: finished todo)
  case Nil
  then show ?case by simp
next
  case (Cons k ks)
  from Cons.prems(1) obtain p rest where fp: "find_pivot k todo = Some (p, rest)"
    by (auto split: option.splits)
  let ?p' = "scale_row (1 / fst p ! k) p"
  let ?elim = "\<lambda>row. sub_row (fst row ! k) ?p' row"
  from Cons.prems(1) fp
  have res: "gauss_jordan ks (map ?elim finished @ [?p']) (map ?elim rest) = Some res"
    by (simp add: Let_def)
  note piv = find_pivot_Some [OF fp]
  from piv(2) Cons.prems(3) have shp: "row_shape n p" and shr: "\<forall>row\<in>set rest. row_shape n row"
    and shf: "\<forall>row\<in>set finished. row_shape n row"
    by auto
  have shp': "row_shape n ?p'" using shp by (rule row_shape_scale)
  have len: "length (map ?elim rest) = length ks"
    using piv(3) Cons.prems(2) by simp
  have shapes: "\<forall>row\<in>set (map ?elim finished @ [?p']) \<union> set (map ?elim rest). row_shape n row"
    using shp' shr shf by (auto simp: row_shape_sub)
  from Cons.IH [OF res len shapes Cons.prems(4)]
  have new: "\<forall>row\<in>set (map ?elim finished @ [?p']) \<union> set (map ?elim rest). row_holds z r row" .
  then have hp': "row_holds z r ?p'" by simp
  with piv(1) have hp: "row_holds z r p" by (simp add: row_holds_scale)
  have "row_holds z r row" if "row \<in> set finished \<union> set rest" for row
  proof -
    from that new have "row_holds z r (?elim row)" by auto
    moreover from that shr shf have "row_shape n row" by auto
    ultimately show ?thesis using row_holds_sub [OF shp' _ hp'] by blast
  qed
  with hp piv(2) show ?case by auto
qed

lemma gauss_jordan_units:
  assumes "ks = [m..<n]" and "m \<le> n" and "reduced n m finished todo"
    and "gauss_jordan ks finished todo = Some res"
  shows "length res = n \<and> (\<forall>row\<in>set res. row_shape n row) \<and>
         (\<forall>i<n. \<forall>j<n. fst (res ! i) ! j = (if i = j then 1 else 0))"
  using assms
proof (induction ks arbitrary: m finished todo)
  case Nil
  from Nil.prems(1) [symmetric] Nil.prems(2) have "m = n" by auto
  with Nil show ?case by (simp add: reduced_def)
next
  case (Cons k ks)
  from Cons.prems(1) [symmetric] have kn: "k < n" and m: "m = k" and ks: "ks = [Suc k..<n]"
    by (auto simp: upt_eq_Cons_conv)
  note red = Cons.prems(3) [unfolded m]
  from Cons.prems(4) obtain p rest where fp: "find_pivot k todo = Some (p, rest)"
    by (auto split: option.splits)
  define p' where "p' = scale_row (1 / fst p ! k) p"
  define elim where "elim = (\<lambda>row. sub_row (fst row ! k) p' row)"
  from Cons.prems(4) fp
  have res: "gauss_jordan ks (map elim finished @ [p']) (map elim rest) = Some res"
    by (simp add: Let_def elim_def p'_def)
  have red': "reduced n (Suc k) (map elim finished @ [p']) (map elim rest)"
    unfolding elim_def p'_def by (rule reduced_step [OF red kn fp])
  from kn have "Suc k \<le> n" by simp
  from Cons.IH [OF ks this red' res] show ?case .
qed

lemma kernel_of_missing_pivot:
  assumes red: "reduced n k finished todo" and kn: "k < n"
    and none: "find_pivot k todo = None"
  shows "\<exists>z. length z = n \<and> z \<noteq> zero_vector n \<and>
             (\<forall>row\<in>set finished \<union> set todo. dot (fst row) z = 0)"
proof -
  define z where "z = map (\<lambda>j. if j < k then - fst (finished ! j) ! k
                                else if j = k then 1 else (0::real)) [0..<n]"
  from red have lenf: "length finished = k"
    and shapes: "\<forall>row\<in>set finished \<union> set todo. row_shape n row"
    and unit: "\<forall>i<k. \<forall>j<k. fst (finished ! i) ! j = (if i = j then 1 else 0)"
    and zero: "\<forall>row\<in>set todo. \<forall>j<k. fst row ! j = 0"
    by (simp_all add: reduced_def)
  have lz: "length z = n" by (simp add: z_def)
  have zj: "z ! j = (if j < k then - fst (finished ! j) ! k else if j = k then 1 else 0)"
    if "j < n" for j
    using that by (simp add: z_def)
  have "z ! k \<noteq> zero_vector n ! k" using kn by (simp add: zj zero_vector_def)
  then have nz: "z \<noteq> zero_vector n" by auto
  have fin: "dot (fst row) z = 0" if "row \<in> set finished" for row
  proof -
    from that lenf obtain i where i: "i < k" and row: "row = finished ! i"
      by (auto simp: in_set_conv_nth)
    define a where "a = fst row"
    from that shapes have la: "length a = n" by (simp add: a_def row_shape_def)
    have summand: "a ! j * z ! j = (if j = i then - a ! k else 0) + (if j = k then a ! k else 0)"
      if "j \<in> {0..<n}" for j
    proof -
      from that have jn: "j < n" by simp
      consider "j < k" | "j = k" | "k < j" by linarith
      then show ?thesis
      proof cases
        case 1
        with i unit have "a ! j = (if i = j then 1 else 0)" by (simp add: a_def row)
        with 1 jn show ?thesis by (auto simp: zj a_def row)
      next
        case 2
        with i jn show ?thesis by (simp add: zj)
      next
        case 3
        with i jn show ?thesis by (simp add: zj)
      qed
    qed
    have "dot a z = (\<Sum>j = 0..<n. a ! j * z ! j)"
      using la lz by (simp add: dot_sum)
    also have "\<dots> = (\<Sum>j = 0..<n. (if j = i then - a ! k else 0) + (if j = k then a ! k else 0))"
      by (rule sum.cong) (simp_all add: summand)
    also have "\<dots> = - a ! k + a ! k"
      using i kn by (simp add: sum.distrib)
    finally show ?thesis by (simp add: a_def)
  qed
  have td: "dot (fst row) z = 0" if "row \<in> set todo" for row
  proof -
    define a where "a = fst row"
    from that shapes have la: "length a = n" by (simp add: a_def row_shape_def)
    from that find_pivot_None [OF none] have ak: "a ! k = 0" by (simp add: a_def)
    have summand: "a ! j * z ! j = 0" if "j \<in> {0..<n}" for j
    proof -
      from that have jn: "j < n" by simp
      consider "j < k" | "j = k" | "k < j" by linarith
      then show ?thesis
      proof cases
        case 1
        with \<open>row \<in> set todo\<close> zero have "a ! j = 0" by (simp add: a_def)
        then show ?thesis by simp
      next
        case 2
        with ak show ?thesis by simp
      next
        case 3
        with jn show ?thesis by (simp add: zj)
      qed
    qed
    have "dot a z = (\<Sum>j = 0..<n. a ! j * z ! j)"
      using la lz by (simp add: dot_sum)
    also have "\<dots> = 0" by (rule sum.neutral) (simp add: summand)
    finally show ?thesis by (simp add: a_def)
  qed
  from lz nz fin td show ?thesis by blast
qed

lemma gauss_jordan_fails_kernel:
  assumes "ks = [m..<n]" and "reduced n m finished todo"
    and "gauss_jordan ks finished todo = None"
  shows "\<exists>z. length z = n \<and> z \<noteq> zero_vector n \<and>
             (\<forall>row\<in>set finished \<union> set todo. dot (fst row) z = 0)"
  using assms
proof (induction ks arbitrary: m finished todo)
  case Nil
  then show ?case by simp
next
  case (Cons k ks)
  from Cons.prems(1) [symmetric] have kn: "k < n" and m: "m = k" and ks: "ks = [Suc k..<n]"
    by (auto simp: upt_eq_Cons_conv)
  note red = Cons.prems(2) [unfolded m]
  show ?case
  proof (cases "find_pivot k todo")
    case None
    from kernel_of_missing_pivot [OF red kn None] show ?thesis .
  next
    case (Some a)
    then obtain p rest where fp: "find_pivot k todo = Some (p, rest)" by (cases a) simp
    define p' where "p' = scale_row (1 / fst p ! k) p"
    define elim where "elim = (\<lambda>row. sub_row (fst row ! k) p' row)"
    from Cons.prems(3) fp
    have fail: "gauss_jordan ks (map elim finished @ [p']) (map elim rest) = None"
      by (simp add: Let_def elim_def p'_def)
    have red': "reduced n (Suc k) (map elim finished @ [p']) (map elim rest)"
      unfolding elim_def p'_def by (rule reduced_step [OF red kn fp])
    from Cons.IH [OF ks red' fail] obtain z where lz: "length z = n"
      and nz: "z \<noteq> zero_vector n"
      and new: "\<forall>row\<in>set (map elim finished @ [p']) \<union> set (map elim rest). dot (fst row) z = 0"
      by blast
    from red have shapes: "\<forall>row\<in>set finished \<union> set todo. row_shape n row"
      by (simp add: reduced_def)
    from new have "\<forall>row\<in>set (map elim finished @ [p']) \<union> set (map elim rest).
        row_holds z (zero_vector n) row"
      by (simp add: row_holds_def dot_zero_vector)
    then have "\<forall>row\<in>set finished \<union> set todo. row_holds z (zero_vector n) row"
      using step_holds [OF fp shapes, where z = z and r = "zero_vector n"]
      by (simp add: elim_def p'_def)
    then have "\<forall>row\<in>set finished \<union> set todo. dot (fst row) z = 0"
      by (simp add: row_holds_def dot_zero_vector)
    with lz nz show ?thesis by blast
  qed
qed

lemma initial_rows_reduced:
  assumes "is_square A"
  shows "reduced (length A) 0 [] (zip A (identity_matrix (length A)))"
  using assms
  by (auto simp: reduced_def row_shape_def is_square_def list_all_iff identity_matrix_def
      set_zip)

text \<open>
  The matrix the inversion returns is the inverse: \<open>A \<cdot> (B \<cdot> r) = r\<close>, and \<open>B \<cdot> r\<close> is the
  only solution of \<open>A \<cdot> z = r\<close>. The inversion of a square matrix raises exactly when the
  matrix is singular.
\<close>

lemma linalg_inv_is_inverse:
  assumes inv: "linalg_inv A = Inr B" and r: "length r = length A"
  shows "map (\<lambda>row. dot row (map (\<lambda>b. dot b r) B)) A = r"
proof -
  let ?n = "length A"
  let ?rows = "zip A (identity_matrix ?n)"
  from inv have sq: "is_square A" by (simp add: linalg_inv_def split: if_splits)
  from inv sq obtain res where gj: "gauss_jordan [0..<?n] [] ?rows = Some res"
    and B: "B = map snd res"
    by (auto simp: linalg_inv_def split: option.splits)
  have shapes: "\<forall>row\<in>set [] \<union> set ?rows. row_shape ?n row"
    using initial_rows_reduced [OF sq] by (simp add: reduced_def)
  from gauss_jordan_units [OF refl _ initial_rows_reduced [OF sq] gj]
  have len: "length res = ?n" and shr: "\<forall>row\<in>set res. row_shape ?n row"
    and units: "\<forall>i<?n. \<forall>j<?n. fst (res ! i) ! j = (if i = j then 1 else 0)"
    by simp_all
  let ?z = "map (\<lambda>b. dot b r) B"
  have lz: "length ?z = ?n" by (simp add: B len)
  have fin: "\<forall>row\<in>set res. row_holds ?z r row"
  proof
    fix row assume "row \<in> set res"
    then obtain i where i: "i < ?n" and row: "row = res ! i"
      by (auto simp: in_set_conv_nth len)
    from shr i len have "length (fst (res ! i)) = ?n" by (simp add: row_shape_def)
    with units i have "fst (res ! i) = map (\<lambda>j. if i = j then 1 else 0) [0..<?n]"
      by (intro nth_equalityI) simp_all
    then have "dot (fst row) ?z = ?z ! i" by (simp add: row dot_unit [OF i lz])
    also have "\<dots> = dot (snd row) r" using i by (simp add: B len row)
    finally show "row_holds ?z r row" by (simp add: row_holds_def)
  qed
  have len0: "length ?rows = length [0..<?n]" by (simp add: identity_matrix_def)
  from gauss_jordan_reflects [OF gj len0 shapes fin]
  have init: "\<forall>row\<in>set ?rows. row_holds ?z r row" by simp
  show ?thesis
  proof (rule nth_equalityI)
    show "length (map (\<lambda>row. dot row ?z) A) = length r" using r by simp
    fix i assume "i < length (map (\<lambda>row. dot row ?z) A)"
    then have i: "i < ?n" by simp
    then have "?rows ! i \<in> set ?rows" by (intro nth_mem) (simp add: identity_matrix_def)
    with init have "row_holds ?z r (?rows ! i)" by blast
    with i have "dot (A ! i) ?z = dot (map (\<lambda>j. if i = j then 1 else 0) [0..<?n]) r"
      by (simp add: row_holds_def identity_matrix_def)
    also have "\<dots> = r ! i" using i r by (simp add: dot_unit)
    finally show "map (\<lambda>row. dot row ?z) A ! i = r ! i" using i by simp
  qed
qed

lemma linalg_inv_unique_solution:
  assumes inv: "linalg_inv A = Inr B" and z: "length z = length A"
    and sol: "map (\<lambda>row. dot row z) A = r"
  shows "z = map (\<lambda>b. dot b r) B"
proof -
  let ?n = "length A"
  let ?rows = "zip A (identity_matrix ?n)"
  from sol have r: "length r = ?n" by auto
  from inv have sq: "is_square A" by (simp add: linalg_inv_def split: if_splits)
  from inv sq obtain res where gj: "gauss_jordan [0..<?n] [] ?rows = Some res"
    and B: "B = map snd res"
    by (auto simp: linalg_inv_def split: option.splits)
  have shapes: "\<forall>row\<in>set [] \<union> set ?rows. row_shape ?n row"
    using initial_rows_reduced [OF sq] by (simp add: reduced_def)
  from gauss_jordan_units [OF refl _ initial_rows_reduced [OF sq] gj]
  have len: "length res = ?n" and shr: "\<forall>row\<in>set res. row_shape ?n row"
    and units: "\<forall>i<?n. \<forall>j<?n. fst (res ! i) ! j = (if i = j then 1 else 0)"
    by simp_all
  have init: "\<forall>row\<in>set [] \<union> set ?rows. row_holds z r row"
  proof
    fix row assume "row \<in> set [] \<union> set ?rows"
    then obtain i where i: "i < ?n" and row: "row = ?rows ! i"
      by (auto simp: in_set_conv_nth identity_matrix_def)
    from sol i have "dot (A ! i) z = r ! i" by (auto simp: list_eq_iff_nth_eq)
    moreover have "dot (map (\<lambda>j. if i = j then 1 else 0) [0..<?n]) r = r ! i"
      using i r by (simp add: dot_unit)
    ultimately show "row_holds z r row"
      using i by (simp add: row row_holds_def identity_matrix_def)
  qed
  from gauss_jordan_preserves [OF gj shapes init]
  have fin: "\<forall>row\<in>set res. row_holds z r row" .
  show ?thesis
  proof (rule nth_equalityI)
    show "length z = length (map (\<lambda>b. dot b r) B)" by (simp add: z B len)
    fix i assume "i < length z"
    with z have i: "i < ?n" by simp
    with len have mem: "res ! i \<in> set res" by simp
    from shr mem have "length (fst (res ! i)) = ?n" by (simp add: row_shape_def)
    with units i have "fst (res ! i) = map (\<lambda>j. if i = j then 1 else 0) [0..<?n]"
      by (intro nth_equalityI) simp_all
    then have "dot (fst (res ! i)) z = z ! i" by (simp add: dot_unit [OF i z])
    moreover from fin mem have "dot (fst (res ! i)) z = dot (snd (res ! i)) r"
      by (simp add: row_holds_def)
    ultimately show "z ! i = map (\<lambda>b. dot b r) B ! i"
      using i by (simp add: B len)
  qed
qed

lemma linalg_inv_shape:
  assumes "linalg_inv A = Inr B"
  shows "length B = length A" and "\<forall>b\<in>set B. length b = length A"
proof -
  let ?n = "length A"
  let ?rows = "zip A (identity_matrix ?n)"
  from assms have sq: "is_square A" by (simp add: linalg_inv_def split: if_splits)
  from assms sq obtain res where gj: "gauss_jordan [0..<?n] [] ?rows = Some res"
    and B: "B = map snd res"
    by (auto simp: linalg_inv_def split: option.splits)
  have shapes: "\<forall>row\<in>set [] \<union> set ?rows. row_shape ?n row"
    using initial_rows_reduced [OF sq] by (simp add: reduced_def)
  from gauss_jordan_units [OF refl _ initial_rows_reduced [OF sq] gj]
  have len: "length res = ?n" and shr: "\<forall>row\<in>set res. row_shape ?n row"
    by simp_all
  show "length B = length A" by (simp add: B len)
  show "\<forall>b\<in>set B. length b = length A" using shr by (auto simp: B row_shape_def)
qed

lemma raises_singular:
  assumes sq: "is_square A" and e: "linalg_inv A = Inl e"
  shows "singular A"
proof -
  let ?n = "length A"
  let ?rows = "zip A (identity_matrix ?n)"
  from sq e have fail: "gauss_jordan [0..<?n] [] ?rows = None"
    by (simp add: linalg_inv_def split: option.splits)
  from gauss_jordan_fails_kernel [OF refl initial_rows_reduced [OF sq] fail]
  obtain z where lz: "length z = ?n" and nz: "z \<noteq> zero_vector ?n"
    and rows: "\<forall>row\<in>set [] \<union> set ?rows. dot (fst row) z = 0"
    by blast
  have "map (\<lambda>row. dot row z) A = zero_vector ?n"
  proof (rule nth_equalityI)
    show "length (map (\<lambda>row. dot row z) A) = length (zero_vector ?n)"
      by (simp add: zero_vector_def)
    fix i assume "i < length (map (\<lambda>row. dot row z) A)"
    then have i: "i < ?n" by simp
    then have "?rows ! i \<in> set ?rows" by (intro nth_mem) (simp add: identity_matrix_def)
    with rows have "dot (fst (?rows ! i)) z = 0" by simp
    with i show "map (\<lambda>row. dot row z) A ! i = zero_vector ?n ! i"
      by (simp add: identity_matrix_def zero_vector_def)
  qed
  with lz nz show ?thesis unfolding singular_def by blast
qed

lemma singular_raises:
  assumes "singular A"
  shows "linalg_inv A = Inl LinAlgError"
proof (cases "linalg_inv A")
  case (Inl e)
  then show ?thesis by (cases e) (auto simp: linalg_inv_def split: if_splits option.splits)
next
  case (Inr B)
  from assms obtain z where lz: "length z = length A" and nz: "z \<noteq> zero_vector (length A)"
    and k: "map (\<lambda>row. dot row z) A = zero_vector (length A)"
    by (auto simp: singular_def)
  from linalg_inv_unique_solution [OF Inr lz k]
  have "z = map (\<lambda>b. dot b (zero_vector (length A))) B" .
  also have "\<dots> = map (\<lambda>b. 0) B" by (simp add: dot_zero_vector)
  also have "\<dots> = zero_vector (length A)"
    using linalg_inv_shape(1) [OF Inr] by (simp add: zero_vector_def map_replicate_const)
  finally show ?thesis using nz by simp
qed

lemma inverse_not_singular: "linalg_inv A = Inr B \<Longrightarrow> \<not> singular A"
  using singular_raises [of A] by auto

subsection \<open>The analytic path\<close>

lemma map_max_non_negative: "non_negative w \<Longrightarrow> map (\<lambda>x. max x 0) w = w"
  by (induction w) (simp_all add: non_negative_def)

lemma long_only_unclamped:
  assumes "non_negative w" and "sum_list w = 1"
  shows "long_only w = Weights w"
  using assms by (simp add: long_only_def map_max_non_negative divide_by_sum_def)

lemma risk_aversion_positive: "0 < risk_aversion risk_factor"
  by (simp add: risk_aversion_def)

lemma normalize_scaled:
  assumes "0 < (l::real)" and "0 < sum_list (map (\<lambda>x. x / l) v)"
  shows "map (\<lambda>x. x / sum_list (map (\<lambda>x. x / l) v)) (map (\<lambda>x. x / l) v)
           = map (\<lambda>x. x / sum_list v) v"
proof -
  from assms have "sum_list v \<noteq> 0" by (auto simp: sum_list_divide)
  with assms(1) show ?thesis by (simp add: sum_list_divide)
qed

lemma proportional_divide: "proportional (map (\<lambda>x. x / s) v) v"
  unfolding proportional_def by (rule exI [of _ "1 / s"]) simp

lemma not_proportional_example: "\<not> proportional [1 / 2, 1 / 2] [- 2, 1]"
  by (auto simp: proportional_def)

text \<open>
  The claim as C2 words it fails where the sum of the pre-projection weights is not
  positive: the solver then takes equal weights, nothing is clamped, and the output is
  no multiple of \<open>Cov\<^sup>-\<^sup>1 \<cdot> returns\<close>. With returns \<open>(-2, 1)\<close> and the
  identity as covariance the output is \<open>(1/2, 1/2)\<close>.
\<close>

theorem equal_weights_not_proportional_counterexample:
  "is_square [[1, 0], [0, 1]] \<and> \<not> singular [[1, 0], [0, 1]] \<and>
   linalg_inv [[1, 0], [0, 1]] = Inr [[1, 0], [0, 1]] \<and>
   pre_projection [[1, 0], [0, 1]] [- 2, 1] (1 / 2) = Inr [- 1 / 2, 1 / 4] \<and>
   non_negative (normalize_or_equal 2 [- 1 / 2, 1 / 4]) \<and>
   optimize_with_modern_portfolio_theory (Some (fixed_minimize False [])) 2 [- 2, 1]
     [[1, 0], [0, 1]] (1 / 2) None = Weights [1 / 2, 1 / 2] \<and>
   \<not> proportional [1 / 2, 1 / 2] [- 2, 1]"
proof -
  have i: "linalg_inv [[1, 0], [0, 1]] = Inr [[1, 0], [0, 1]]"
    by (simp add: inverse_defs)
  from inverse_not_singular [OF i] show ?thesis
    by (simp add: solver_defs inverse_defs non_negative_def not_proportional_example
        eval_nat_numeral)
qed

lemma unconstrained_weights_of_inverse:
  assumes "linalg_inv covariance_matrix = Inr inv_cov"
    and "np_dot_mv inv_cov returns = Inr v"
  shows "map (\<lambda>row. dot row v) covariance_matrix = returns \<and>
         pre_projection inv_cov returns risk_factor =
           Inr (map (\<lambda>x. x / (if risk_factor > 0 then 2 / risk_factor else 1)) v) \<and>
         (\<forall>w. pre_projection inv_cov returns risk_factor = Inr w \<longrightarrow>
            optimize_with_modern_portfolio_theory (Some minimize) n returns covariance_matrix
              risk_factor None = long_only (normalize_or_equal n w) \<and>
            (0 < sum_list w \<and> non_negative (normalize_or_equal n w) \<longrightarrow>
               optimize_with_modern_portfolio_theory (Some minimize) n returns covariance_matrix
                 risk_factor None = Weights (map (\<lambda>x. x / sum_list v) v) \<and>
               proportional (map (\<lambda>x. x / sum_list v) v) v))"
proof (intro conjI allI impI)
  have "length returns = length covariance_matrix"
  proof (cases inv_cov)
    case Nil
    with assms(2) linalg_inv_shape(1) [OF assms(1)] show ?thesis
      by (simp add: np_dot_mv_def split: if_splits)
  next
    case (Cons b bs)
    with assms(2) have "length b = length returns"
      by (simp add: np_dot_mv_def split: if_splits)
    with Cons linalg_inv_shape(2) [OF assms(1)] show ?thesis by simp
  qed
  from linalg_inv_is_inverse [OF assms(1) this] assms(2)
  show "map (\<lambda>row. dot row v) covariance_matrix = returns"
    by (auto simp: np_dot_mv_def split: if_splits)
  show p: "pre_projection inv_cov returns risk_factor =
           Inr (map (\<lambda>x. x / (if risk_factor > 0 then 2 / risk_factor else 1)) v)"
    using assms(2) by (simp add: pre_projection_def risk_aversion_def)
  fix w
  assume w: "pre_projection inv_cov returns risk_factor = Inr w"
  show o: "optimize_with_modern_portfolio_theory (Some minimize) n returns covariance_matrix
          risk_factor None = long_only (normalize_or_equal n w)"
    using assms(1) w
    by (simp add: optimize_with_modern_portfolio_theory_def mpt_try_def
        unconstrained_weights_def)
  assume c: "0 < sum_list w \<and> non_negative (normalize_or_equal n w)"
  from w assms(2) have wv: "w = map (\<lambda>x. x / risk_aversion risk_factor) v"
    by (simp add: pre_projection_def)
  from c have ne: "normalize_or_equal n w = map (\<lambda>x. x / sum_list w) w"
    by (simp add: normalize_or_equal_def)
  also have "\<dots> = map (\<lambda>x. x / sum_list v) v"
    unfolding wv using risk_aversion_positive c [unfolded wv]
    by (intro normalize_scaled) simp_all
  finally have eq: "normalize_or_equal n w = map (\<lambda>x. x / sum_list v) v" .
  from c have "sum_list (normalize_or_equal n w) = 1"
    by (simp add: ne sum_list_divide)
  with c have "long_only (normalize_or_equal n w) = Weights (normalize_or_equal n w)"
    by (intro long_only_unclamped) simp_all
  with o eq show "optimize_with_modern_portfolio_theory (Some minimize) n returns
      covariance_matrix risk_factor None = Weights (map (\<lambda>x. x / sum_list v) v)"
    by simp
  show "proportional (map (\<lambda>x. x / sum_list v) v) v"
    by (rule proportional_divide)
qed

text \<open>
  C2, amended. With an invertible covariance matrix the analytic path computes
  \<open>w = Cov\<^sup>-\<^sup>1 \<cdot> returns / \<lambda>\<close>, \<open>\<lambda> = 2 / riskFactor\<close> when the risk factor is
  positive and 1 otherwise, so that \<open>Cov \<cdot> (\<lambda> w) = returns\<close>; it divides by
  \<open>sum(w)\<close> when that is positive and takes
  equal weights otherwise, then clamps negative components to 0 and divides by the sum
  again. Whenever \<open>sum(w) > 0\<close> and nothing was clamped, the output is
  \<open>Cov\<^sup>-\<^sup>1 \<cdot> returns\<close> divided by the sum of its entries, a multiple of it.
\<close>

theorem unconstrained_weights_proportional:
  assumes "is_square covariance_matrix" and "\<not> singular covariance_matrix"
    and "length returns = length covariance_matrix"
  shows "\<exists>inv_cov v w.
           linalg_inv covariance_matrix = Inr inv_cov \<and>
           np_dot_mv inv_cov returns = Inr v \<and>
           map (\<lambda>row. dot row v) covariance_matrix = returns \<and>
           w = map (\<lambda>x. x / (if risk_factor > 0 then 2 / risk_factor else 1)) v \<and>
           pre_projection inv_cov returns risk_factor = Inr w \<and>
           optimize_with_modern_portfolio_theory (Some minimize) n returns covariance_matrix
             risk_factor None = long_only (normalize_or_equal n w) \<and>
           (0 < sum_list w \<and> non_negative (normalize_or_equal n w) \<longrightarrow>
              optimize_with_modern_portfolio_theory (Some minimize) n returns covariance_matrix
                risk_factor None = Weights (map (\<lambda>x. x / sum_list v) v) \<and>
              proportional (map (\<lambda>x. x / sum_list v) v) v)"
proof -
  from assms(1,2) obtain inv_cov where i: "linalg_inv covariance_matrix = Inr inv_cov"
    using raises_singular [of covariance_matrix] by (cases "linalg_inv covariance_matrix") auto
  from linalg_inv_shape [OF i] assms(3)
  have d: "np_dot_mv inv_cov returns = Inr (map (\<lambda>r. dot r returns) inv_cov)"
    by (auto simp: np_dot_mv_def list_all_iff)
  from unconstrained_weights_of_inverse [OF i d, of risk_factor minimize n] i d
  show ?thesis by blast
qed

theorem unconstrained_weights_proportional_witness:
  "is_square [[4 / 100, 0, 0], [0, 9 / 100, 0], [0, 0, 1 / 100]] \<and>
   \<not> singular [[4 / 100, 0, 0], [0, 9 / 100, 0], [0, 0, 1 / 100]] \<and>
   length [8 / 100, 12 / 100, 5 / 100 :: real]
     = length [[4 / 100, 0, 0], [0, 9 / 100, 0], [0, 0, 1 / 100 :: real]] \<and>
   linalg_inv [[4 / 100, 0, 0], [0, 9 / 100, 0], [0, 0, 1 / 100]]
     = Inr [[25, 0, 0], [0, 100 / 9, 0], [0, 0, 100]] \<and>
   0 < sum_list [1 / 2, 1 / 3, 5 / 4 :: real] \<and>
   non_negative (normalize_or_equal 3 [1 / 2, 1 / 3, 5 / 4]) \<and>
   optimize_with_modern_portfolio_theory (Some (fixed_minimize False [])) 3
     [8 / 100, 12 / 100, 5 / 100] [[4 / 100, 0, 0], [0, 9 / 100, 0], [0, 0, 1 / 100]]
     (1 / 2) None = Weights [6 / 25, 4 / 25, 3 / 5] \<and>
   proportional [6 / 25, 4 / 25, 3 / 5] [2, 4 / 3, 5]"
proof -
  let ?cov = "[[4 / 100, 0, 0], [0, 9 / 100, 0], [0, 0, 1 / 100 :: real]]"
  let ?inv = "[[25, 0, 0], [0, 100 / 9, 0], [0, 0, 100 :: real]]"
  let ?r = "[8 / 100, 12 / 100, 5 / 100 :: real]"
  let ?m = "fixed_minimize False []"
  have q: "is_square ?cov" by (simp add: is_square_def)
  have i: "linalg_inv ?cov = Inr ?inv" by (simp add: inverse_defs)
  have ns: "\<not> singular ?cov" using i by (rule inverse_not_singular)
  have l: "length ?r = length ?cov" by simp
  have s: "0 < sum_list [1 / 2, 1 / 3, 5 / 4 :: real]" by simp
  have n: "non_negative (normalize_or_equal 3 [1 / 2, 1 / 3, 5 / 4])"
    by (simp add: normalize_or_equal_def non_negative_def)
  from unconstrained_weights_proportional [OF q ns l, of "1 / 2" ?m 3]
  obtain inv_cov v w where i': "linalg_inv ?cov = Inr inv_cov"
    and d: "np_dot_mv inv_cov ?r = Inr v"
    and w: "w = map (\<lambda>x. x / (if (1 / 2 :: real) > 0 then 2 / (1 / 2) else 1)) v"
    and c: "0 < sum_list w \<and> non_negative (normalize_or_equal 3 w) \<longrightarrow>
              optimize_with_modern_portfolio_theory (Some ?m) 3 ?r ?cov (1 / 2) None
                = Weights (map (\<lambda>x. x / sum_list v) v) \<and>
              proportional (map (\<lambda>x. x / sum_list v) v) v"
    by blast
  from i i' have "inv_cov = ?inv" by simp
  with d have v: "v = [2, 4 / 3, 5]" by (simp add: np_dot_mv_def dot_def)
  with w have "w = [1 / 2, 1 / 3, 5 / 4]" by simp
  with c s n v have "optimize_with_modern_portfolio_theory (Some ?m) 3 ?r ?cov (1 / 2) None
          = Weights [6 / 25, 4 / 25, 3 / 5] \<and>
        proportional [6 / 25, 4 / 25, 3 / 5] [2, 4 / 3, 5]"
    by simp
  with q ns l i s n show ?thesis by blast
qed

subsection \<open>The bounds of the constrained path\<close>

lemma clip_within_bounds:
  "list_all2 (\<le>) lo a \<Longrightarrow> list_all2 (\<le>) a hi \<Longrightarrow>
   map2 (\<lambda>x (lo, hi). min (max x lo) hi) a (zip lo hi) = (a :: real list)"
proof (induction a arbitrary: lo hi)
  case Nil
  then show ?case by simp
next
  case (Cons x a)
  then show ?case by (cases lo; cases hi) auto
qed

text \<open>
  On the success path the bounds hold when the point the optimiser reports lies within
  them and sums to 1: clipping and dividing by the sum then change nothing.
\<close>

lemma success_within_bounds:
  assumes "bounds_of n c = Inr bounds"
    and "minimize (objective returns cov) (initial_weights bounds) bounds
           = Inr (OptimizeResult True point)"
    and "list_all2 (\<le>) (get_min_weights n c) point"
    and "list_all2 (\<le>) point (get_max_weights n c)"
    and "sum_list point = 1"
  shows "constrained_weights minimize n returns cov c = Inr (Weights point)"
proof -
  from assms(3,4) have len: "length (get_min_weights n c) = length point"
    "length (get_max_weights n c) = length point"
    by (simp_all add: list_all2_lengthD)
  have "np_clip point (get_min_weights n c) (get_max_weights n c) = Inr point"
    using len clip_within_bounds [OF assms(3,4)]
    by (simp add: np_clip_def broadcast_shape_def broadcast_to_def)
  with assms(1,2,5) show ?thesis
    by (simp add: constrained_weights_def divide_by_sum_def)
qed

text \<open>
  C3. The bounds are not kept on the non-convergence path: the initial guess is the
  midpoints divided by their sum, and the division can push a weight below its minimum.
  With bounds \<open>[0.6, 0.7]\<close> and \<open>[0, 1]\<close>, a feasible set, the fallback returns
  \<open>13/23\<close> for the first asset, below its minimum \<open>0.6\<close>. (With a minimum of \<open>0.5\<close>
  on the first of two assets and no other bound it returns \<open>0.6\<close>.)
\<close>

theorem nonconvergence_fallback_below_minimum:
  "feasible_bounds 2 \<lparr>min_weights = Some [6 / 10, 0], max_weights = Some [7 / 10, 1]\<rparr> \<and>
   optimize_with_modern_portfolio_theory (Some (fixed_minimize False [])) 2 [1 / 10, 2 / 10]
     [[1, 0], [0, 1]] (1 / 2)
     (Some \<lparr>min_weights = Some [6 / 10, 0], max_weights = Some [7 / 10, 1]\<rparr>)
     = Weights [13 / 23, 10 / 23] \<and>
   (13 / 23 :: real) < 6 / 10 \<and>
   optimize_with_modern_portfolio_theory (Some (fixed_minimize False [])) 2 [1 / 10, 2 / 10]
     [[1, 0], [0, 1]] (1 / 2)
     (Some \<lparr>min_weights = Some [1 / 2, 0], max_weights = Some [1, 1]\<rparr>)
     = Weights [6 / 10, 4 / 10]"
  by (simp add: feasible_bounds_def solver_defs)

subsection \<open>The quantum solvers without a toolchain\<close>

text \<open>
  C4. When the quantum toolchain is unavailable, \<open>optimize_with_qaoa\<close> and
  \<open>optimize_with_vqe\<close> both return what the classical solver returns without
  constraints for the same \<open>n\<close>, returns, covariance and risk factor.
\<close>

theorem quantum_unavailable_same_as_classical:
  "optimize_with_qaoa None scipy n returns covariance_matrix risk_factor =
     optimize_with_modern_portfolio_theory scipy n returns covariance_matrix risk_factor None \<and>
   optimize_with_vqe None scipy n returns covariance_matrix risk_factor =
     optimize_with_modern_portfolio_theory scipy n returns covariance_matrix risk_factor None"
  by (simp add: optimize_with_qaoa_def optimize_with_vqe_def)

theorem quantum_unavailable_same_as_classical_witness:
  "optimize_with_qaoa None None 2 [1 / 10, 2 / 10] [[1, 0], [0, 1]] (1 / 2)
     = Weights [1 / 2, 1 / 2] \<and>
   optimize_with_vqe None None 2 [1 / 10, 2 / 10] [[1, 0], [0, 1]] (1 / 2)
     = Weights [1 / 2, 1 / 2]"
proof -
  have "optimize_with_modern_portfolio_theory None 2 [1 / 10, 2 / 10] [[1, 0], [0, 1]]
          (1 / 2) None = Weights [1 / 2, 1 / 2]"
    by (simp add: solver_defs eval_nat_numeral)
  with quantum_unavailable_same_as_classical
    [of None 2 "[1 / 10, 2 / 10]" "[[1, 0], [0, 1]]" "1 / 2"]
  show ?thesis by simp
qed

subsection \<open>A singular covariance matrix\<close>






subsection \<open>The risk factor\<close>

lemma normalize_or_equal_scale:
  assumes "0 < (l::real)"
  shows "normalize_or_equal n (map (\<lambda>x. x / l) v) = normalize_or_equal n v"
proof (cases "0 < sum_list v")
  case True
  with assms have "0 < sum_list (map (\<lambda>x. x / l) v)" by (simp add: sum_list_divide)
  with True assms show ?thesis
    unfolding normalize_or_equal_def by (simp only: if_True normalize_scaled)
next
  case False
  with assms have "\<not> 0 < sum_list (map (\<lambda>x. x / l) v)"
    by (simp add: sum_list_divide zero_less_divide_iff)
  with False show ?thesis by (simp add: normalize_or_equal_def)
qed

lemma unconstrained_weights_any_risk_factor:
  "unconstrained_weights n returns cov rf = unconstrained_weights n returns cov rf'"
  by (auto simp: unconstrained_weights_def pre_projection_def normalize_or_equal_scale
      risk_aversion_positive split: sum.splits)

lemma mpt_any_risk_factor:
  "optimize_with_modern_portfolio_theory scipy n returns cov rf cs
     = optimize_with_modern_portfolio_theory scipy n returns cov rf' cs"
proof -
  have "mpt_try scipy n returns cov rf cs = mpt_try scipy n returns cov rf' cs"
    using unconstrained_weights_any_risk_factor [of n returns cov rf rf']
    by (simp add: mpt_try_def split: option.splits)
  then show ?thesis by (simp add: optimize_with_modern_portfolio_theory_def)
qed

text \<open>
  The claim as C6 words it fails: for the default request, \<open>targetRiskLevel = 5\<close>,
  \<open>main\<close> passes \<open>0.5\<close> and the backtest passes its own constant, which is neither
  \<open>0.5\<close> nor a value of \<open>[0, 1]\<close>.
\<close>

theorem backtest_risk_factor_counterexample:
  "main_risk_factor 5 = 1 / 2 \<and> backtest_risk_factor = 5 \<and>
   backtest_risk_factor \<noteq> main_risk_factor 5 \<and> \<not> backtest_risk_factor \<le> 1 \<and>
   backtest_optimal_weights None [''A'', ''B''] [1 / 10, 2 / 10] [[1, 0], [0, 1]]
     = optimize_with_modern_portfolio_theory None 2 [1 / 10, 2 / 10] [[1, 0], [0, 1]] 5 None"
  by (simp add: main_risk_factor_def backtest_risk_factor_def backtest_optimal_weights_def
      numeral_2_eq_2)

text \<open>
  C6, amended. \<open>targetRiskLevel / 10\<close> is the risk factor \<open>main\<close> passes to the solver
  it selects (the classical one, QAOA or VQE). The backtest does not read
  \<open>targetRiskLevel\<close>: it passes a risk factor of its own to the classical solver
  without constraints, whose weights are the same for every risk factor.
\<close>

theorem risk_factor_of_main_and_backtest:
  "main_optimize quantum scipy method target_risk returns covariance_matrix cs =
     (if returns = [] then Inl ValueError
      else if method = ''QAOA''
      then Inr (optimize_with_qaoa quantum scipy (length returns) returns covariance_matrix
                  (target_risk / 10))
      else if method = ''VQE''
      then Inr (optimize_with_vqe quantum scipy (length returns) returns covariance_matrix
                  (target_risk / 10))
      else Inr (optimize_with_modern_portfolio_theory scipy (length returns) returns
                  covariance_matrix (target_risk / 10) cs)) \<and>
   backtest_optimal_weights scipy symbols mean_returns_train cov_matrix_train =
     optimize_with_modern_portfolio_theory scipy (length symbols) mean_returns_train
       cov_matrix_train any_risk_factor None"
proof
  show "main_optimize quantum scipy method target_risk returns covariance_matrix cs =
     (if returns = [] then Inl ValueError
      else if method = ''QAOA''
      then Inr (optimize_with_qaoa quantum scipy (length returns) returns covariance_matrix
                  (target_risk / 10))
      else if method = ''VQE''
      then Inr (optimize_with_vqe quantum scipy (length returns) returns covariance_matrix
                  (target_risk / 10))
      else Inr (optimize_with_modern_portfolio_theory scipy (length returns) returns
                  covariance_matrix (target_risk / 10) cs))"
    by (simp add: main_optimize_def build_portfolio_optimization_problem_def
        main_risk_factor_def)
  show "backtest_optimal_weights scipy symbols mean_returns_train cov_matrix_train =
     optimize_with_modern_portfolio_theory scipy (length symbols) mean_returns_train
       cov_matrix_train any_risk_factor None"
    unfolding backtest_optimal_weights_def Let_def by (rule mpt_any_risk_factor)
qed

theorem risk_factor_of_main_and_backtest_witness:
  "main_optimize None None ''MPT'' 5 [1 / 10, 2 / 10] [[1, 0], [0, 1]] None
     = Inr (optimize_with_modern_portfolio_theory None 2 [1 / 10, 2 / 10] [[1, 0], [0, 1]]
              (5 / 10) None) \<and>
   backtest_optimal_weights None [''A'', ''B''] [1 / 10, 2 / 10] [[1, 0], [0, 1]]
     = optimize_with_modern_portfolio_theory None 2 [1 / 10, 2 / 10] [[1, 0], [0, 1]]
         (5 / 10) None"
  using risk_factor_of_main_and_backtest
    [of None None "''MPT''" 5 "[1 / 10, 2 / 10]" "[[1, 0], [0, 1]]" None "[''A'', ''B'']"
      "[1 / 10, 2 / 10]" "[[1, 0], [0, 1]]" "5 / 10"]
  by (simp add: numeral_2_eq_2)

subsection \<open>Portfolio metrics\<close>

lemma quad_form_value:
  assumes "quad_form M w = Inr v"
  shows "v = dot w (map (\<lambda>r. dot r w) M)" and "length w = length M"
  using assms
  by (auto simp: quad_form_def np_dot_mv_def np_dot_vv_def split: if_splits)

lemma positive_semidefinite_quad_form:
  "positive_semidefinite M \<Longrightarrow> quad_form M w = Inr v \<Longrightarrow> 0 \<le> v"
  using quad_form_value [of M w v] by (simp add: positive_semidefinite_def)

lemma round_half_even_mono_zero: "0 \<le> y \<Longrightarrow> 0 \<le> round_half_even y"
  by (auto simp: round_half_even_def)

lemma py_round_non_negative: "0 \<le> y \<Longrightarrow> 0 \<le> py_round y n"
  by (simp add: py_round_def round_half_even_mono_zero)

lemma sqrt_small: "sqrt (1 / 10000000000) = 1 / 100000"
  by (rule real_sqrt_unique) (simp_all add: power2_eq_square)

lemmas metrics_defs =
  calculate_portfolio_metrics_def np_dot_vv_def quad_form_def np_dot_mv_def dot_def
  np_sqrt_def sharpe_of_def risk_free_rate_def percent_def py_round_def round_half_even_def

text \<open>
  The claim as C7 words it fails twice. The guard of the Sharpe ratio tests the risk
  before rounding: a risk of \<open>10\<^sup>-\<^sup>5\<close> is returned as \<open>expectedRisk = 0\<close> with a
  Sharpe ratio of 98000. And the radicand is not clamped: a negative one makes
  \<open>expectedRisk\<close> nan.
\<close>

theorem rounded_risk_zero_counterexample:
  "positive_semidefinite [[1 / 10000000000]] \<and>
   calculate_portfolio_metrics [1] [[1 / 10000000000]] [1]
     = Inr \<lparr>expectedReturn = 100, expectedRisk = Fin 0, sharpeRatio = 98000\<rparr> \<and>
   calculate_portfolio_metrics [1] [[- 1]] [1]
     = Inr \<lparr>expectedReturn = 100, expectedRisk = NaN, sharpeRatio = 0\<rparr>"
proof (intro conjI)
  show "positive_semidefinite [[1 / 10000000000]]"
    by (auto simp: positive_semidefinite_def dot_def length_Suc_conv)
  show "calculate_portfolio_metrics [1] [[1 / 10000000000]] [1]
     = Inr \<lparr>expectedReturn = 100, expectedRisk = Fin 0, sharpeRatio = 98000\<rparr>"
    by (simp add: metrics_defs sqrt_small Let_def)
  show "calculate_portfolio_metrics [1] [[- 1]] [1]
     = Inr \<lparr>expectedReturn = 100, expectedRisk = NaN, sharpeRatio = 0\<rparr>"
    by (simp add: metrics_defs)
qed

text \<open>
  C7, amended. When the radicand \<open>weights\<^sup>t \<cdot> Cov \<cdot> weights\<close> is not negative, as it is
  for every positive semidefinite covariance matrix, \<open>expectedRisk\<close> is a number and not
  negative. The radicand is not clamped: a negative one gives nan. \<open>sharpeRatio\<close> is
  always a number, the rounded ratio when the risk before rounding is positive and 0
  otherwise.
\<close>

theorem metrics_risk_and_sharpe:
  assumes "calculate_portfolio_metrics returns covariance_matrix weights = Inr m"
  shows "\<exists>v. quad_form covariance_matrix weights = Inr v \<and>
           (positive_semidefinite covariance_matrix \<longrightarrow> 0 \<le> v) \<and>
           (0 \<le> v \<longrightarrow> expectedRisk m = Fin (py_round (sqrt v * 100) 2) \<and>
                      0 \<le> py_round (sqrt v * 100) 2) \<and>
           (v < 0 \<longrightarrow> expectedRisk m = NaN) \<and>
           sharpeRatio m =
             py_round (if 0 < v then (dot weights returns - risk_free_rate) / sqrt v else 0) 3 \<and>
           (v \<le> 0 \<longrightarrow> sharpeRatio m = 0)"
proof -
  from assms obtain v where v: "quad_form covariance_matrix weights = Inr v"
    by (auto simp: calculate_portfolio_metrics_def split: sum.splits)
  from assms v have m: "m = \<lparr>expectedReturn = py_round (dot weights returns * 100) 2,
      expectedRisk = percent (np_sqrt v),
      sharpeRatio = py_round (sharpe_of (dot weights returns) (np_sqrt v)) 3\<rparr>"
    by (auto simp: calculate_portfolio_metrics_def np_dot_vv_def Let_def split: if_splits)
  have z: "py_round 0 3 = 0" by (simp add: py_round_def round_half_even_def)
  have "positive_semidefinite covariance_matrix \<longrightarrow> 0 \<le> v"
    using v by (auto dest: positive_semidefinite_quad_form)
  moreover have "0 \<le> v \<longrightarrow> expectedRisk m = Fin (py_round (sqrt v * 100) 2) \<and>
                      0 \<le> py_round (sqrt v * 100) 2"
    by (simp add: m percent_def np_sqrt_def py_round_non_negative)
  moreover have "v < 0 \<longrightarrow> expectedRisk m = NaN"
    by (simp add: m percent_def np_sqrt_def)
  moreover have "sharpeRatio m =
      py_round (if 0 < v then (dot weights returns - risk_free_rate) / sqrt v else 0) 3"
    by (simp add: m sharpe_of_def np_sqrt_def z)
  moreover have "v \<le> 0 \<longrightarrow> sharpeRatio m = 0"
    by (simp add: m sharpe_of_def np_sqrt_def z)
  ultimately show ?thesis using v by blast
qed

theorem metrics_risk_and_sharpe_witness:
  "calculate_portfolio_metrics [1 / 10] [[4]] [1]
     = Inr \<lparr>expectedReturn = 10, expectedRisk = Fin 200, sharpeRatio = 4 / 100\<rparr> \<and>
   positive_semidefinite [[4]] \<and>
   (\<exists>v. quad_form [[4]] [1] = Inr v \<and> 0 \<le> v \<and>
      expectedRisk \<lparr>expectedReturn = 10, expectedRisk = Fin 200, sharpeRatio = 4 / 100\<rparr>
        = Fin (py_round (sqrt v * 100) 2) \<and>
      0 \<le> py_round (sqrt v * 100) 2)"
proof -
  have m: "calculate_portfolio_metrics [1 / 10] [[4]] [1]
     = Inr \<lparr>expectedReturn = 10, expectedRisk = Fin 200, sharpeRatio = 4 / 100\<rparr>"
    by (simp add: metrics_defs)
  have p: "positive_semidefinite [[4]]"
    by (auto simp: positive_semidefinite_def dot_def length_Suc_conv)
  from metrics_risk_and_sharpe [OF m] p m show ?thesis by blast
qed

subsection \<open>The efficient frontier\<close>













subsection \<open>Historical data\<close>

lemmas fetch_defs =
  fetch_real_historical_data_def fetch_simulated_data_def table_empty_def correlation_def
  no_data_def half_correlations_def

text \<open>
  The claim as C9 words it fails: on an empty price table the stage returns a pair of
  returns and covariance, the simulated one, and raises nothing.
\<close>

theorem empty_price_table_counterexample:
  "table_empty [] \<and>
   fetch_real_historical_data (Some no_data) half_correlations
     [\<lparr>symbol = ''A'', riskLevel = 5\<rparr>] ''1y'' True
     = ([Fin (23 / 400)], [[Fin (9 / 40000)]])"
  by (simp add: fetch_defs)

text \<open>
  C9, amended. When the fetched price table is empty, the stage returns the
  (returns, covariance) pair of the simulated data, one entry per stock and none of the
  returns nan; it does not fail.
\<close>

theorem empty_price_table_simulated:
  assumes "download (map symbol stocks) period = Inr data"
    and "table_empty data"
  shows "fetch_real_historical_data (Some download) uniform stocks period use_real_data
           = fetch_simulated_data uniform stocks \<and>
         length (fst (fetch_simulated_data uniform stocks)) = length stocks \<and>
         length (snd (fetch_simulated_data uniform stocks)) = length stocks \<and>
         list_all (\<lambda>y. y \<noteq> NaN) (fst (fetch_simulated_data uniform stocks))"
  using assms
  by (simp add: fetch_real_historical_data_def fetch_simulated_data_def Let_def list_all_iff)

theorem empty_price_table_simulated_witness:
  "no_data (map symbol [\<lparr>symbol = ''A'', riskLevel = 5\<rparr>]) ''1y'' = Inr [] \<and>
   table_empty [] \<and>
   fetch_real_historical_data (Some no_data) half_correlations
     [\<lparr>symbol = ''A'', riskLevel = 5\<rparr>] ''1y'' True
     = fetch_simulated_data half_correlations [\<lparr>symbol = ''A'', riskLevel = 5\<rparr>]"
proof -
  have d: "no_data (map symbol [\<lparr>symbol = ''A'', riskLevel = 5\<rparr>]) ''1y'' = Inr []"
    by (simp add: no_data_def)
  have e: "table_empty []" by (simp add: table_empty_def)
  from empty_price_table_simulated
    [where download = no_data and stocks = "[\<lparr>symbol = ''A'', riskLevel = 5\<rparr>]"
      and period = "''1y''" and data = "[]", OF d e] d e
  show ?thesis by blast
qed

lemma download_failure_simulated:
  "yf = None \<or> (\<exists>download e. yf = Some download \<and> download (map symbol stocks) period = Inl e)
   \<Longrightarrow> fetch_real_historical_data yf uniform stocks period use_real_data
         = fetch_simulated_data uniform stocks"
  by (auto simp: fetch_real_historical_data_def)

lemma single_observation_statistics:
  assumes "row \<noteq> []"
  shows "annualized_statistics n [row]
           = (if n = 1 then ([NaN], [[NaN]])
              else (map (\<lambda>j. NaN) [0..<n], map (\<lambda>i. map (\<lambda>j. NaN) [0..<n]) [0..<n]))"
  by (simp add: annualized_statistics_def pct_change_def column_def series_mean_def
      series_cov_def std_squared_def times_def)

subsection \<open>Rounded percents\<close>





end
